theory Spec2Isabelle
  imports Main "HOL-Library.AList" "HOL-Library.Monad_Syntax"
begin

text \<open>
  A model of \<open>server.js\<close>, the relay server of MMOMaker: the wire format, the session
  registry, the player-state store, the packet dispatcher and the handler of the parent
  connection. Every function below is named after the function, the \<open>switch\<close> case or
  the buffer of \<open>server.js\<close> it translates, with the lines it comes from.

  The globals of the file are the fields of \<open>state\<close>. An exception is a value: a
  function that can throw returns an \<open>outcome\<close>, \<open>Threw e st\<close> holding the state at the
  \<open>throw\<close>. What a socket is sent is recorded in the field \<open>sent\<close>. Not modelled: the
  console, the HTTP health endpoint, the mail and database collaborators (the two cases
  that use them throw before they reach them), and the failure of a transport write,
  which \<open>writeToSocket\<close> catches and logs.
\<close>

section \<open>Bytes, buffers and strings\<close>

text \<open>
  A Node \<open>Buffer\<close> is a list of bytes, each byte a \<open>char\<close>. A JavaScript string is held
  as the list of its UTF-8 bytes: the operations \<open>server.js\<close> applies to strings (removing
  U+0000, removing the first U+0005, appending \<open>"f"\<close>, comparing property names, writing
  into a buffer) act on that list exactly as they act on the string, because the bytes
  \<open>0x00\<close> and \<open>0x05\<close> occur in UTF-8 only as these two code points.
\<close>

type_synonym buffer = string
type_synonym jstring = string

datatype js_error = RangeError | TypeError | ReferenceError | SyntaxError

definition alloc :: "nat \<Rightarrow> buffer" where
  \<comment> \<open>\<open>Buffer.alloc(n)\<close>, and any buffer after \<open>fill(0)\<close>\<close>
  "alloc n = replicate n (CHR 0x00)"

definition readUInt8 :: "buffer \<Rightarrow> int \<Rightarrow> nat option" where
  \<comment> \<open>\<open>None\<close>: the read is outside the buffer and Node throws a RangeError\<close>
  "readUInt8 b off =
     (if 0 \<le> off \<and> off + 1 \<le> int (length b) then Some (of_char (b ! nat off)) else None)"

definition readInt16LE :: "buffer \<Rightarrow> int \<Rightarrow> int option" where
  "readInt16LE b off =
     (if 0 \<le> off \<and> off + 2 \<le> int (length b) then
        (let v = int (of_char (b ! nat off)) + 256 * int (of_char (b ! (nat off + 1)))
         in Some (if v < 32768 then v else v - 65536))
      else None)"

definition writeUInt8 :: "buffer \<Rightarrow> int \<Rightarrow> nat \<Rightarrow> buffer option" where
  \<comment> \<open>\<open>None\<close>: the value is not in 0..255 and Node throws a RangeError\<close>
  "writeUInt8 b v off = (if 0 \<le> v \<and> v \<le> 255 then Some (b[off := char_of v]) else None)"

definition writeUInt16LE :: "buffer \<Rightarrow> int \<Rightarrow> nat \<Rightarrow> buffer option" where
  "writeUInt16LE b v off =
     (if 0 \<le> v \<and> v \<le> 65535
      then Some (b[off := char_of (v mod 256), off + 1 := char_of (v div 256)])
      else None)"

definition writeInt16LE :: "buffer \<Rightarrow> int \<Rightarrow> nat \<Rightarrow> buffer option" where
  "writeInt16LE b v off =
     (if - 32768 \<le> v \<and> v \<le> 32767
      then Some (b[off := char_of (v mod 256), off + 1 := char_of ((v mod 65536) div 256)])
      else None)"

definition is_continuation :: "char \<Rightarrow> bool" where
  "is_continuation c = (128 \<le> (of_char c :: nat) \<and> (of_char c :: nat) < 192)"

definition utf8_fit :: "nat \<Rightarrow> jstring \<Rightarrow> buffer" where
  \<comment> \<open>the bytes \<open>buf.write\<close> stores when \<open>room\<close> bytes are left: the whole string, or as
      many whole characters of it as fit\<close>
  "utf8_fit room s =
     (if length s \<le> room then s
      else if is_continuation (s ! room)
        then butlast (rev (dropWhile is_continuation (rev (take room s))))
        else take room s)"

definition buf_write :: "buffer \<Rightarrow> jstring \<Rightarrow> nat \<Rightarrow> buffer" where
  \<comment> \<open>\<open>buf.write(s, off)\<close>\<close>
  "buf_write b s off =
     (let w = utf8_fit (length b - off) s in take off b @ w @ drop (off + length w) b)"

definition buf_slice :: "buffer \<Rightarrow> int \<Rightarrow> int \<Rightarrow> buffer" where
  \<comment> \<open>the bytes \<open>buf.toString(enc, start, end)\<close> decodes: both ends are clamped to the
      buffer, and an empty range gives the empty string\<close>
  "buf_slice b start end =
     (let len = int (length b); s = max 0 start; e = min end len
      in if len \<le> s \<or> e \<le> s then [] else take (nat (e - s)) (drop (nat s) b))"

section \<open>JSON values and the library functions\<close>

text \<open>
  A JavaScript value that came out of \<open>JSON.parse\<close>; \<open>undefined\<close> is \<open>None\<close> of
  \<open>json option\<close>. A number is held as the text \<open>String\<close> gives it, which is all the
  server ever asks of a number it has parsed. The numbers the server creates itself are
  the three fields of a position, integers of at most five digits, which \<open>show_int\<close>
  prints as JavaScript does.
\<close>

datatype json =
  JNull | JBool bool | JNum jstring | JStr jstring | JArr "json list" |
  JObj "(jstring \<times> json) list"

text \<open>
  The functions of Node and of the language that \<open>server.js\<close> calls and does not define.
  They are parameters of the model: \<open>toString_utf8\<close> is the decoder of
  \<open>buf.toString("utf-8", ...)\<close> (the identity on well-formed UTF-8),
  \<open>JSON_parse\<close> gives \<open>None\<close> where \<open>JSON.parse\<close> throws a SyntaxError.
\<close>

record runtime =
  toString_utf8 :: "buffer \<Rightarrow> jstring"
  JSON_parse :: "jstring \<Rightarrow> json option"
  JSON_stringify :: "json \<Rightarrow> jstring"

fun show_nat :: "nat \<Rightarrow> string" where
  "show_nat n =
     (if n < 10 then [char_of (48 + n)] else show_nat (n div 10) @ [char_of (48 + n mod 10)])"

definition show_int :: "int \<Rightarrow> string" where
  "show_int i = (if i < 0 then CHR ''-'' # show_nat (nat (- i)) else show_nat (nat i))"

fun js_join :: "jstring list \<Rightarrow> jstring" where
  "js_join [] = []"
| "js_join [x] = x"
| "js_join (x # y # ys) = x @ '','' @ js_join (y # ys)"

primrec string_throws :: "json \<Rightarrow> bool" where
  \<comment> \<open>whether \<open>String(v)\<close> throws a TypeError: a parsed object with a key \<open>toString\<close> of its
      own has no callable \<open>toString\<close>, and its \<open>valueOf\<close> gives no primitive; an array
      converts each of its elements\<close>
  "string_throws JNull = False"
| "string_throws (JBool b) = False"
| "string_throws (JNum n) = False"
| "string_throws (JStr s) = False"
| "string_throws (JArr xs) = (True \<in> set (map string_throws xs))"
| "string_throws (JObj ps) = (''toString'' \<in> set (map fst ps))"

primrec js_str :: "json \<Rightarrow> jstring" where
  \<comment> \<open>\<open>String(v)\<close>, for a value on which it does not throw\<close>
  "js_str JNull = ''null''"
| "js_str (JBool b) = (if b then ''true'' else ''false'')"
| "js_str (JNum n) = n"
| "js_str (JStr s) = s"
| "js_str (JArr xs) = js_join (map (\<lambda>x. if x = JNull then [] else js_str x) xs)"
| "js_str (JObj ps) = ''[object Object]''"

definition js_key :: "json option \<Rightarrow> jstring" where
  \<comment> \<open>the property name a value denotes in \<open>obj[v]\<close> and in \<open>v in obj\<close>\<close>
  "js_key v = (case v of None \<Rightarrow> ''undefined'' | Some j \<Rightarrow> js_str j)"

definition key_throws :: "json option \<Rightarrow> bool" where
  \<comment> \<open>whether taking \<open>v\<close> for a property name throws\<close>
  "key_throws v = (case v of None \<Rightarrow> False | Some j \<Rightarrow> string_throws j)"

definition Object_prototype_names :: "jstring list" where
  \<comment> \<open>the property names every plain object inherits; \<open>in\<close> finds them\<close>
  "Object_prototype_names =
     [''constructor'', ''__defineGetter__'', ''__defineSetter__'', ''hasOwnProperty'',
      ''__lookupGetter__'', ''__lookupSetter__'', ''isPrototypeOf'', ''propertyIsEnumerable'',
      ''toString'', ''valueOf'', ''__proto__'', ''toLocaleString'']"

definition js_in :: "jstring \<Rightarrow> (jstring \<times> 'v) list \<Rightarrow> bool" where
  \<comment> \<open>\<open>k in obj\<close> for a plain object \<open>obj\<close>\<close>
  "js_in k obj = (k \<in> set (map fst obj) \<or> k \<in> set Object_prototype_names)"

definition js_get :: "json \<Rightarrow> jstring \<Rightarrow> json option" where
  \<comment> \<open>\<open>d.k\<close> for a parsed value \<open>d\<close> other than \<open>null\<close> and one of the names
      \<open>uid\<close>, \<open>pos\<close>, \<open>myRoom\<close>, \<open>name\<close>, \<open>outfit\<close>: only an object has them\<close>
  "js_get d k = (case d of JObj ps \<Rightarrow> map_of ps k | _ \<Rightarrow> None)"

definition js_set :: "json \<Rightarrow> jstring \<Rightarrow> json \<Rightarrow> json" where
  \<comment> \<open>\<open>d.k = v\<close> for the same names: an object gets the property (in place, or last); on
      an array the property is one \<open>JSON.stringify\<close> leaves out; on a string, number or
      boolean the assignment does nothing (the file is not in strict mode)\<close>
  "js_set d k v = (case d of JObj ps \<Rightarrow> JObj (AList.update k v ps) | _ \<Rightarrow> d)"

definition has_properties :: "json \<Rightarrow> bool" where
  "has_properties d = (case d of JObj ps \<Rightarrow> True | JArr xs \<Rightarrow> True | _ \<Rightarrow> False)"

section \<open>Protocol constants\<close>

abbreviation (input) serverNet_assign :: nat where "serverNet_assign \<equiv> 1"
abbreviation (input) serverNet_message :: nat where "serverNet_message \<equiv> 2"
abbreviation (input) serverNet_leave :: nat where "serverNet_leave \<equiv> 8"
abbreviation (input) serverNet_playerObj :: nat where "serverNet_playerObj \<equiv> 9"
abbreviation (input) serverNet_heartbeat :: nat where "serverNet_heartbeat \<equiv> 10"

abbreviation (input) clientNet_ID :: nat where "clientNet_ID \<equiv> 20"
abbreviation (input) clientNet_pos :: nat where "clientNet_pos \<equiv> 21"
abbreviation (input) clientNet_myRoom :: nat where "clientNet_myRoom \<equiv> 22"
abbreviation (input) clientNet_outfit :: nat where "clientNet_outfit \<equiv> 23"
abbreviation (input) clientNet_name :: nat where "clientNet_name \<equiv> 24"
abbreviation (input) clientNet_message :: nat where "clientNet_message \<equiv> 25"
abbreviation (input) clientNet_email :: nat where "clientNet_email \<equiv> 26"
abbreviation (input) clientNet_upload :: nat where "clientNet_upload \<equiv> 27"
abbreviation (input) clientNet_miscData :: nat where "clientNet_miscData \<equiv> 28"
abbreviation (input) clientNet_heartbeat :: nat where "clientNet_heartbeat \<equiv> 29"

abbreviation (input) clusterNet_count :: nat where "clusterNet_count \<equiv> 40"
abbreviation (input) clusterNet_miscData :: nat where "clusterNet_miscData \<equiv> 42"
abbreviation (input) clusterNet_type :: nat where "clusterNet_type \<equiv> 43"
abbreviation (input) clusterNet_serverData :: nat where "clusterNet_serverData \<equiv> 44"
abbreviation (input) clusterNet_leave :: nat where "clusterNet_leave \<equiv> 46"

abbreviation (input) tcpPort :: int where "tcpPort \<equiv> 63456"

section \<open>The state of a node\<close>

text \<open>
  Sockets are objects shared between the registry and the handlers, so they live in a
  store: a \<open>ref\<close> names a socket object and \<open>sockets\<close> gives the three fields the server
  puts on it. \<open>idToSocket\<close> is the registry object: its keys are array indices, which
  JavaScript enumerates in ascending order. \<open>socketToData\<close> is the player-state store.
  \<open>sent\<close> is the log of \<open>writeToSocket\<close>: each entry is the receiving socket and the bytes
  of the buffer at the time of the call.
\<close>

type_synonym ref = nat

record sock =
  isWS :: bool
  uid :: "json option"
  sock_id :: int

record state =
  serverIndex :: nat
  playerCount :: nat
  idToSocket :: "(nat \<times> ref) list"
  socketToData :: "(jstring \<times> json) list"
  unifiedCluster :: bool
  nodes :: json
  sockets :: "ref \<Rightarrow> sock"
  sent :: "(ref \<times> buffer) list"

datatype outcome = Done state | Threw js_error state

definition state_of :: "outcome \<Rightarrow> state" where
  "state_of r = (case r of Done st \<Rightarrow> st | Threw e st \<Rightarrow> st)"

fun put_index :: "nat \<Rightarrow> 'a \<Rightarrow> (nat \<times> 'a) list \<Rightarrow> (nat \<times> 'a) list" where
  \<comment> \<open>\<open>obj[k] = v\<close> for an array-index key\<close>
  "put_index k v [] = [(k, v)]"
| "put_index k v ((k', v') # r) =
     (if k < k' then (k, v) # (k', v') # r
      else if k = k' then (k, v) # r
      else (k', v') # put_index k v r)"

definition delete_index :: "int \<Rightarrow> (nat \<times> 'a) list \<Rightarrow> (nat \<times> 'a) list" where
  \<comment> \<open>\<open>delete obj[i]\<close>: the registry has no negative key\<close>
  "delete_index i obj = (if i < 0 then obj else filter (\<lambda>(k, v). k \<noteq> nat i) obj)"

definition Object_values :: "(nat \<times> 'a) list \<Rightarrow> 'a list" where
  "Object_values obj = map snd obj"

definition writeToSocket :: "ref option \<Rightarrow> buffer \<Rightarrow> state \<Rightarrow> state" where
  \<comment> \<open>lines 328-338. The socket \<open>None\<close> is the number \<open>-1\<close> that stands for "no parent":
      \<open>socket.write\<close> is then not a function, the TypeError is caught and logged, and
      nothing is sent\<close>
  "writeToSocket socket dataBuf st =
     (case socket of None \<Rightarrow> st | Some r \<Rightarrow> st\<lparr>sent := sent st @ [(r, dataBuf)]\<rparr>)"

fun forEach :: "('a \<Rightarrow> state \<Rightarrow> outcome) \<Rightarrow> 'a list \<Rightarrow> state \<Rightarrow> outcome" where
  "forEach f [] st = Done st"
| "forEach f (x # xs) st =
     (case f x st of Done st' \<Rightarrow> forEach f xs st' | Threw e st' \<Rightarrow> Threw e st')"

definition readBufString :: "runtime \<Rightarrow> buffer \<Rightarrow> int \<Rightarrow> int \<Rightarrow> jstring" where
  \<comment> \<open>lines 394-396: \<open>replace\<close> with the pattern \<open>/\0/g\<close> removes every U+0000,
      \<open>replace\<close> with the string \<open>"\u0005"\<close> removes the first U+0005\<close>
  "readBufString rt str ind end =
     remove1 (CHR 0x05) (filter (\<lambda>c. c \<noteq> CHR 0x00) (toString_utf8 rt (buf_slice str ind end)))"

section \<open>Outbound packets\<close>

definition assign_packet :: "int \<Rightarrow> jstring \<Rightarrow> buffer option" where
  \<comment> \<open>lines 155-158\<close>
  "assign_packet i u = do {
     b \<leftarrow> writeUInt8 (alloc 512) (int serverNet_assign) 0;
     b \<leftarrow> writeUInt16LE b i 1;
     Some (buf_write b u 3) }"

definition count_packet :: "nat \<Rightarrow> buffer option" where
  \<comment> \<open>lines 162-164\<close>
  "count_packet n = do {
     b \<leftarrow> writeUInt8 (alloc 512) (int clusterNet_count) 0;
     writeUInt8 b (int n) 1 }"

definition playerObj_packet :: "int \<Rightarrow> jstring \<Rightarrow> buffer option" where
  \<comment> \<open>lines 187-190 and 197-200\<close>
  "playerObj_packet i s = do {
     b \<leftarrow> writeUInt8 (alloc 4096) (int serverNet_playerObj) 0;
     b \<leftarrow> writeUInt8 b i 1;
     Some (buf_write b s 2) }"

definition message_packet :: "jstring \<Rightarrow> buffer option" where
  \<comment> \<open>lines 211-213\<close>
  "message_packet text = do {
     b \<leftarrow> writeUInt8 (alloc 4096) (int serverNet_message) 0;
     Some (buf_write b text 1) }"

definition heartbeat_packet :: "buffer option" where
  \<comment> \<open>lines 267-268\<close>
  "heartbeat_packet = writeUInt8 (alloc 512) (int serverNet_heartbeat) 0"

definition leave_packet :: "int \<Rightarrow> buffer option" where
  \<comment> \<open>lines 364-366 and 371-373\<close>
  "leave_packet i = do {
     b \<leftarrow> writeUInt8 (alloc 512) (int serverNet_leave) 0;
     writeUInt16LE b i 1 }"

definition type_packet :: "buffer option" where
  \<comment> \<open>lines 305-308: the port is written at offset 1, over the byte written just before\<close>
  "type_packet = do {
     b \<leftarrow> writeUInt8 (alloc 512) (int clusterNet_type) 0;
     b \<leftarrow> writeUInt8 b 1 1;
     writeUInt16LE b tcpPort 1 }"

datatype field_data = Text jstring | Position int int nat

definition playerData_packet :: "nat \<Rightarrow> field_data \<Rightarrow> int \<Rightarrow> buffer option" where
  \<comment> \<open>lines 382-390, the buffer \<open>sendPlayerData\<close> builds\<close>
  "playerData_packet t d fromSocketID = do {
     b \<leftarrow> writeUInt8 (alloc 512) (int t) 0;
     b \<leftarrow> writeUInt16LE b fromSocketID 1;
     (case d of
        Text s \<Rightarrow> Some (buf_write b s 3)
      | Position x y f \<Rightarrow> do {
          b \<leftarrow> writeInt16LE b x 3;
          b \<leftarrow> writeInt16LE b y 5;
          writeUInt8 b (int f) 7 }) }"

definition sendPlayerData :: "nat \<Rightarrow> field_data \<Rightarrow> int \<Rightarrow> ref option \<Rightarrow> state \<Rightarrow> outcome" where
  \<comment> \<open>lines 381-392\<close>
  "sendPlayerData t d fromSocketID toSocket st =
     (case playerData_packet t d fromSocketID of
        None \<Rightarrow> Threw RangeError st
      | Some b \<Rightarrow> Done (writeToSocket toSocket b st))"

section \<open>Accepting a connection\<close>

definition serverCode :: "ref \<Rightarrow> bool \<Rightarrow> jstring \<Rightarrow> ref option \<Rightarrow> state \<Rightarrow> outcome" where
  \<comment> \<open>lines 146-171; \<open>u\<close> is the string \<open>uuidv4()\<close> returns. The last three lines install
      the data handler, which is \<open>processPacket\<close> below\<close>
  "serverCode socket isWS' u serverSocket st =
     (let i = int (playerCount st) + int (serverIndex st) * 256;
          st1 = st\<lparr>sockets := (sockets st)(socket := \<lparr>isWS = isWS', uid = Some (JStr u), sock_id = i\<rparr>),
                   playerCount := (playerCount st + 1) mod 256,
                   idToSocket := put_index (nat i) socket (idToSocket st)\<rparr>
      in case assign_packet i u of
           None \<Rightarrow> Threw RangeError st1
         | Some b \<Rightarrow>
             (let st2 = writeToSocket (Some socket) b st1
              in if serverSocket \<noteq> None then
                   (case count_packet (length (idToSocket st2)) of
                      None \<Rightarrow> Threw RangeError st2
                    | Some c \<Rightarrow> Done (writeToSocket serverSocket c st2))
                 else Done st2))"

section \<open>The packet handlers\<close>

function add_f :: "(jstring \<times> json) list \<Rightarrow> jstring \<Rightarrow> jstring" where
  \<comment> \<open>line 183, the loop \<open>while (uid in socketToData) uid += "f"\<close> on a string\<close>
  "add_f store u = (if js_in u store then add_f store (u @ ''f'') else u)"
  by pat_completeness auto
termination
proof (relation "measure (\<lambda>(store, u).
    Suc (foldr (\<lambda>k m. max (length k) m) (map fst store @ Object_prototype_names) 0) - length u)")
  show "wf (measure (\<lambda>(store :: (jstring \<times> json) list, u).
    Suc (foldr (\<lambda>k m. max (length k) m) (map fst store @ Object_prototype_names) 0) - length u))"
    by simp
next
  fix store :: "(jstring \<times> json) list" and u :: jstring
  assume "js_in u store"
  then have mem: "u \<in> set (map fst store @ Object_prototype_names)"
    by (auto simp: js_in_def)
  have bound: "k \<in> set ks \<Longrightarrow> length k \<le> foldr (\<lambda>k m. max (length k) m) ks 0"
    for k :: jstring and ks
    by (induction ks) auto
  from bound [OF mem]
  show "((store, u @ ''f''), (store, u)) \<in> measure (\<lambda>(store, u).
    Suc (foldr (\<lambda>k m. max (length k) m) (map fst store @ Object_prototype_names) 0) - length u)"
    by simp
qed

declare add_f.simps [simp del]

definition dedupe_uid ::
  "json \<Rightarrow> (jstring \<times> json) list \<Rightarrow> (js_error + json option \<times> json) option" where
  \<comment> \<open>line 183 for a parsed value \<open>d\<close> other than \<open>null\<close>: the final \<open>d.uid\<close> and the final
      \<open>d\<close>, or the TypeError of a \<open>d.uid\<close> that is no property name. \<open>None\<close>: the loop
      does not end, because \<open>d\<close> is a string, number or boolean, on which \<open>d.uid\<close> stays
      \<open>undefined\<close>\<close>
  "dedupe_uid d store =
     (let v = js_get d ''uid'' in
      if key_throws v then Some (Inl TypeError)
      else if \<not> js_in (js_key v) store then Some (Inr (v, d))
      else if has_properties d then
        (let u = add_f store (js_key v @ ''f'')
         in Some (Inr (Some (JStr u), js_set d ''uid'' (JStr u))))
      else None)"

definition send_to_others :: "ref \<Rightarrow> buffer \<Rightarrow> ref \<Rightarrow> state \<Rightarrow> outcome" where
  \<comment> \<open>the loop body \<open>if (_sock.id != socket.id) writeToSocket(_sock, b)\<close>\<close>
  "send_to_others socket b s st =
     (if sock_id (sockets st s) \<noteq> sock_id (sockets st socket)
      then Done (writeToSocket (Some s) b st) else Done st)"

definition send_peer_to :: "runtime \<Rightarrow> ref \<Rightarrow> ref \<Rightarrow> state \<Rightarrow> outcome" where
  \<comment> \<open>lines 196-202: \<open>JSON.stringify\<close> of a missing record is \<open>undefined\<close>, which
      \<open>bufLarge.write\<close> refuses with a TypeError. The lookup is among the store's own
      keys: a socket's uid is the uuid it was accepted with or an identity the loop of
      line 183 has let through, never a name that objects inherit\<close>
  "send_peer_to rt socket s st =
     (if sock_id (sockets st s) \<noteq> sock_id (sockets st socket) then
        (case writeUInt8 (alloc 4096) (int serverNet_playerObj) 0 \<bind>
                (\<lambda>b. writeUInt8 b (sock_id (sockets st s)) 1) of
           None \<Rightarrow> Threw RangeError st
         | Some b \<Rightarrow>
             (case map_of (socketToData st) (js_key (uid (sockets st s))) of
                None \<Rightarrow> Threw TypeError st
              | Some d \<Rightarrow>
                  Done (writeToSocket (Some socket) (buf_write b (JSON_stringify rt d) 2) st)))
      else Done st)"

definition handle_ID :: "runtime \<Rightarrow> ref \<Rightarrow> buffer \<Rightarrow> int \<Rightarrow> int \<Rightarrow> state \<Rightarrow> outcome option" where
  \<comment> \<open>lines 180-205. \<open>None\<close>: the loop of line 183 does not end. A socket's uid is
      stored only after line 183 has taken it for a property name, so the later uses of
      a uid as a name (lines 200, 347-353, 377) do not throw\<close>
  "handle_ID rt socket data off end st =
     (let str = readBufString rt data (3 + off) end in
      case JSON_parse rt str of
        None \<Rightarrow> Some (Threw SyntaxError st)
      | Some d \<Rightarrow>
          if d = JNull then Some (Threw TypeError st)
          else
            (case dedupe_uid d (socketToData st) of
               None \<Rightarrow> None
             | Some (Inl e) \<Rightarrow> Some (Threw e st)
             | Some (Inr (v, d')) \<Rightarrow>
                 (let st1 = st\<lparr>sockets := (sockets st)(socket := (sockets st socket)\<lparr>uid := v\<rparr>)\<rparr>;
                      st2 = st1\<lparr>socketToData := AList.update (js_key v) d' (socketToData st1)\<rparr>
                  in Some
                    (case playerObj_packet (sock_id (sockets st2 socket)) str of
                       None \<Rightarrow> Threw RangeError st2
                     | Some b \<Rightarrow>
                         (case forEach (send_to_others socket b)
                                 (Object_values (idToSocket st2)) st2 of
                            Threw e st3 \<Rightarrow> Threw e st3
                          | Done st3 \<Rightarrow>
                              forEach (send_peer_to rt socket)
                                (Object_values (idToSocket st3)) st3)))))"

definition handle_message :: "runtime \<Rightarrow> ref \<Rightarrow> buffer \<Rightarrow> int \<Rightarrow> int \<Rightarrow> state \<Rightarrow> outcome" where
  \<comment> \<open>lines 207-218\<close>
  "handle_message rt socket data off end st =
     (let text = readBufString rt data (3 + off) end in
      forEach (\<lambda>s st'.
          if sock_id (sockets st' s) \<noteq> sock_id (sockets st' socket) then
            (case message_packet text of
               None \<Rightarrow> Threw RangeError st'
             | Some b \<Rightarrow> Done (writeToSocket (Some s) b st'))
          else Done st')
        (Object_values (idToSocket st)) st)"

definition handle_email :: "runtime \<Rightarrow> ref \<Rightarrow> buffer \<Rightarrow> int \<Rightarrow> int \<Rightarrow> state \<Rightarrow> outcome" where
  \<comment> \<open>lines 220-239: the subject reads \<open>socketToName\<close>, a name the file never declares\<close>
  "handle_email rt socket data off end st = Threw ReferenceError st"

definition handle_upload :: "runtime \<Rightarrow> ref \<Rightarrow> buffer \<Rightarrow> int \<Rightarrow> int \<Rightarrow> state \<Rightarrow> outcome" where
  \<comment> \<open>lines 241-249: \<open>ref\<close> is declared inside the \<open>try\<close> block of lines 61-71 and is not
      in scope here\<close>
  "handle_upload rt socket data off end st =
     (case JSON_parse rt (readBufString rt data (3 + off) end) of
        None \<Rightarrow> Threw SyntaxError st
      | Some photoObj \<Rightarrow> Threw ReferenceError st)"

definition handle_miscData :: "runtime \<Rightarrow> ref \<Rightarrow> buffer \<Rightarrow> int \<Rightarrow> int \<Rightarrow> state \<Rightarrow> outcome" where
  \<comment> \<open>lines 251-254\<close>
  "handle_miscData rt socket data off end st =
     (case JSON_parse rt (readBufString rt data (3 + off) end) of
        None \<Rightarrow> Threw SyntaxError st
      | Some d \<Rightarrow> Done st)"

definition handle_leave :: "ref \<Rightarrow> buffer \<Rightarrow> ref option \<Rightarrow> state \<Rightarrow> outcome" where
  \<comment> \<open>lines 256-264: the first statement reads \<open>isWS\<close>, which is a parameter of
      \<open>serverCode\<close> and no variable of \<open>processPacket\<close> or of the file, so the case throws
      before it closes the socket or forwards anything\<close>
  "handle_leave socket data serverSocket st = Threw ReferenceError st"

definition handle_heartbeat :: "ref \<Rightarrow> state \<Rightarrow> outcome" where
  \<comment> \<open>lines 266-271\<close>
  "handle_heartbeat socket st =
     (case heartbeat_packet of
        None \<Rightarrow> Threw RangeError st
      | Some b \<Rightarrow> Done (writeToSocket (Some socket) b st))"

definition set_field :: "ref \<Rightarrow> jstring \<Rightarrow> json \<Rightarrow> state \<Rightarrow> js_error + state" where
  \<comment> \<open>\<open>socketToData[socket.uid].k = v\<close>: a TypeError when the socket has no record\<close>
  "set_field socket k v st =
     (let key = js_key (uid (sockets st socket)) in
      case map_of (socketToData st) key of
        None \<Rightarrow> Inl TypeError
      | Some d \<Rightarrow>
          if d = JNull then Inl TypeError
          else Inr (st\<lparr>socketToData := AList.update key (js_set d k v) (socketToData st)\<rparr>))"

definition read_field ::
  "runtime \<Rightarrow> buffer \<Rightarrow> ref \<Rightarrow> int \<Rightarrow> int \<Rightarrow> state \<Rightarrow> js_error + (nat \<times> field_data \<times> state)" where
  \<comment> \<open>lines 341-354: the packet type, the value \<open>_data\<close> and the store after the update\<close>
  "read_field rt data socket dataOffset end st =
     (case readUInt8 data dataOffset of
        None \<Rightarrow> Inl RangeError
      | Some t \<Rightarrow>
          if t = clientNet_message then
            Inr (t, Text (readBufString rt data (1 + dataOffset) end), st)
          else if t = clientNet_pos then
            (case readInt16LE data (1 + dataOffset) of
               None \<Rightarrow> Inl RangeError
             | Some x \<Rightarrow>
                 (case readInt16LE data (3 + dataOffset) of
                    None \<Rightarrow> Inl RangeError
                  | Some y \<Rightarrow>
                      (case readUInt8 data (5 + dataOffset) of
                         None \<Rightarrow> Inl RangeError
                       | Some f \<Rightarrow>
                           (case set_field socket ''pos'' (JArr [JNum (show_int x), JNum (show_int y), JNum (show_int (int f))]) st of
                              Inl e \<Rightarrow> Inl e
                            | Inr st' \<Rightarrow> Inr (t, Position x y f, st')))))
          else
            (let s = readBufString rt data (1 + dataOffset) end in
             if t = clientNet_myRoom then
               (case set_field socket ''myRoom'' (JStr s) st of
                  Inl e \<Rightarrow> Inl e | Inr st' \<Rightarrow> Inr (t, Text s, st'))
             else if t = clientNet_name then
               (case set_field socket ''name'' (JStr s) st of
                  Inl e \<Rightarrow> Inl e | Inr st' \<Rightarrow> Inr (t, Text s, st'))
             else if t = clientNet_outfit then
               (case set_field socket ''outfit'' (JStr s) st of
                  Inl e \<Rightarrow> Inl e | Inr st' \<Rightarrow> Inr (t, Text s, st'))
             else Inr (t, Text s, st)))"

definition forwardPlayerData ::
  "runtime \<Rightarrow> buffer \<Rightarrow> ref \<Rightarrow> int \<Rightarrow> ref option \<Rightarrow> int \<Rightarrow> state \<Rightarrow> outcome" where
  \<comment> \<open>lines 340-359\<close>
  "forwardPlayerData rt data socket dataOffset serverSocket end st =
     (case read_field rt data socket dataOffset end st of
        Inl e \<Rightarrow> Threw e st
      | Inr (t, d, st1) \<Rightarrow>
          (case forEach (\<lambda>s st'.
                   if sock_id (sockets st' s) \<noteq> sock_id (sockets st' socket)
                   then sendPlayerData t d (sock_id (sockets st' socket)) (Some s) st'
                   else Done st')
                 (Object_values (idToSocket st1)) st1 of
             Threw e st2 \<Rightarrow> Threw e st2
           | Done st2 \<Rightarrow>
               if unifiedCluster st2 \<and> serverSocket \<noteq> None
               then sendPlayerData t d (sock_id (sockets st2 socket)) serverSocket st2
               else Done st2))"

definition dispatch ::
  "runtime \<Rightarrow> ref \<Rightarrow> buffer \<Rightarrow> ref option \<Rightarrow> int \<Rightarrow> int \<Rightarrow> state \<Rightarrow> outcome option" where
  \<comment> \<open>lines 179-274, the \<open>switch\<close> of \<open>processPacket\<close> for the sub-packet at \<open>off\<close>\<close>
  "dispatch rt socket data serverSocket off end st =
     (case readUInt8 data (2 + off) of
        None \<Rightarrow> Some (Threw RangeError st)
      | Some t \<Rightarrow>
          if t = clientNet_ID then handle_ID rt socket data off end st
          else if t = clientNet_message then Some (handle_message rt socket data off end st)
          else if t = clientNet_email then Some (handle_email rt socket data off end st)
          else if t = clientNet_upload then Some (handle_upload rt socket data off end st)
          else if t = clientNet_miscData then Some (handle_miscData rt socket data off end st)
          else if t = clusterNet_leave then Some (handle_leave socket data serverSocket st)
          else if t = clientNet_heartbeat then Some (handle_heartbeat socket st)
          else Some (forwardPlayerData rt data socket (2 + off) serverSocket end st))"

section \<open>The framing loop\<close>

text \<open>
  The \<open>while\<close> loop of lines 177-276 does not end on every buffer (a sub-packet whose length
  field is 0 is dispatched again and again), so the loop carries fuel: \<open>None\<close> is "has not
  returned", after the fuel is used up or inside a handler that does not return.
\<close>

fun processPacket_loop ::
  "nat \<Rightarrow> runtime \<Rightarrow> ref \<Rightarrow> buffer \<Rightarrow> ref option \<Rightarrow> int \<Rightarrow> state \<Rightarrow> outcome option" where
  "processPacket_loop 0 rt socket data serverSocket off st =
     (if off < int (length data) then None else Some (Done st))"
| "processPacket_loop (Suc n) rt socket data serverSocket off st =
     (if off < int (length data) then
        (case readInt16LE data off of
           None \<Rightarrow> Some (Threw RangeError st)
         | Some len \<Rightarrow>
             (case dispatch rt socket data serverSocket off (off + len) st of
                None \<Rightarrow> None
              | Some (Threw e st') \<Rightarrow> Some (Threw e st')
              | Some (Done st') \<Rightarrow>
                  processPacket_loop n rt socket data serverSocket (off + len) st'))
      else Some (Done st))"

definition processPacket ::
  "nat \<Rightarrow> runtime \<Rightarrow> ref \<Rightarrow> buffer \<Rightarrow> ref option \<Rightarrow> state \<Rightarrow> outcome option" where
  \<comment> \<open>lines 173-277, with \<open>n\<close> the fuel of the loop\<close>
  "processPacket n rt socket data serverSocket st =
     processPacket_loop n rt socket data serverSocket 0 st"

text \<open>
  The same loop, with a record of its passes: the values of \<open>_offset\<close> and \<open>_end\<close>
  each time the loop reaches the \<open>switch\<close> of line 179, in order. It differs from
  \<open>processPacket_loop\<close> in the record only.
\<close>

fun processPacket_trace ::
  "nat \<Rightarrow> runtime \<Rightarrow> ref \<Rightarrow> buffer \<Rightarrow> ref option \<Rightarrow> int \<Rightarrow> state \<Rightarrow>
     ((int \<times> int) list \<times> outcome) option" where
  "processPacket_trace 0 rt socket data serverSocket off st =
     (if off < int (length data) then None else Some ([], Done st))"
| "processPacket_trace (Suc n) rt socket data serverSocket off st =
     (if off < int (length data) then
        (case readInt16LE data off of
           None \<Rightarrow> Some ([], Threw RangeError st)
         | Some len \<Rightarrow>
             (case dispatch rt socket data serverSocket off (off + len) st of
                None \<Rightarrow> None
              | Some (Threw e st') \<Rightarrow> Some ([(off, off + len)], Threw e st')
              | Some (Done st') \<Rightarrow>
                  map_option (\<lambda>(tr, r). ((off, off + len) # tr, r))
                    (processPacket_trace n rt socket data serverSocket (off + len) st')))
      else Some ([], Done st))"

section \<open>Disconnecting\<close>

definition send_leave :: "int \<Rightarrow> ref option \<Rightarrow> state \<Rightarrow> outcome" where
  \<comment> \<open>lines 364-367 and 371-374\<close>
  "send_leave i target st =
     (case leave_packet i of
        None \<Rightarrow> Threw RangeError st
      | Some b \<Rightarrow> Done (writeToSocket target b st))"

definition playerDisconnect :: "ref \<Rightarrow> ref option \<Rightarrow> state \<Rightarrow> outcome" where
  \<comment> \<open>lines 361-379\<close>
  "playerDisconnect socket serverSocket st =
     (let st1 = st\<lparr>idToSocket := delete_index (sock_id (sockets st socket)) (idToSocket st)\<rparr>
      in case forEach (\<lambda>s st'. send_leave (sock_id (sockets st' socket)) (Some s) st')
                (Object_values (idToSocket st1)) st1 of
           Threw e st2 \<Rightarrow> Threw e st2
         | Done st2 \<Rightarrow>
             (case (if serverSocket \<noteq> None
                    then send_leave (sock_id (sockets st2 socket)) serverSocket st2
                    else Done st2) of
                Threw e st3 \<Rightarrow> Threw e st3
              | Done st3 \<Rightarrow>
                  Done (st3\<lparr>socketToData :=
                    AList.delete (js_key (uid (sockets st3 socket))) (socketToData st3)\<rparr>)))"

datatype socket_event = error_event | close_event

definition on_socket_event :: "socket_event \<Rightarrow> ref \<Rightarrow> ref option \<Rightarrow> state \<Rightarrow> outcome" where
  \<comment> \<open>lines 123-128 and 139-141: the handlers \<open>createServer\<close> installs on a socket\<close>
  "on_socket_event ev socket serverSocket st =
     (case ev of
        error_event \<Rightarrow> playerDisconnect socket serverSocket st
      | close_event \<Rightarrow> playerDisconnect socket serverSocket st)"

section \<open>The connection to the parent\<close>

definition on_parent_data :: "nat \<Rightarrow> runtime \<Rightarrow> ref \<Rightarrow> buffer \<Rightarrow> state \<Rightarrow> outcome option" where
  \<comment> \<open>lines 293-320, the data handler of the parent socket; \<open>socket\<close> and \<open>serverSocket\<close>
      of lines 284-286 are the same object. Line 314 assigns to \<open>nodes\<close>, which line 282
      declares \<open>const\<close>: the assignment throws a TypeError and \<open>nodes\<close> keeps its value\<close>
  "on_parent_data n rt socket data st =
     (case readUInt8 data 0 of
        None \<Rightarrow> Some (Threw RangeError st)
      | Some t \<Rightarrow>
          if t = clusterNet_miscData then
            (case JSON_parse rt (readBufString rt data 1 (int (length data))) of
               None \<Rightarrow> Some (Threw SyntaxError st)
             | Some d \<Rightarrow> Some (Done st))
          else if t = clusterNet_type then
            (case readUInt8 data 1 of
               None \<Rightarrow> Some (Threw RangeError st)
             | Some m \<Rightarrow>
                 (let st1 = (if m = 1 then st\<lparr>unifiedCluster := True\<rparr> else st)
                  in case type_packet of
                       None \<Rightarrow> Some (Threw RangeError st1)
                     | Some b \<Rightarrow> Some (Done (writeToSocket (Some socket) b st1))))
          else if t = clusterNet_serverData then
            (case JSON_parse rt (readBufString rt data 1 (int (length data))) of
               None \<Rightarrow> Some (Threw SyntaxError st)
             | Some d \<Rightarrow> Some (Threw TypeError st))
          else processPacket n rt socket data None st)"

section \<open>The inbound frame format\<close>

text \<open>
  The sender's side of the framing, from the layout the specification gives: a
  sub-packet is its total length as a little-endian 16-bit integer, the type byte and
  the payload. A frame is the pair of the type byte and the payload.
\<close>

definition encode_frame :: "char \<times> buffer \<Rightarrow> buffer" where
  "encode_frame f =
     [char_of ((3 + length (snd f)) mod 256), char_of ((3 + length (snd f)) div 256), fst f]
       @ snd f"

definition encode_frames :: "(char \<times> buffer) list \<Rightarrow> buffer" where
  "encode_frames fs = concat (map encode_frame fs)"

fun frame_bounds :: "int \<Rightarrow> (char \<times> buffer) list \<Rightarrow> (int \<times> int) list" where
  \<comment> \<open>where each frame starts and ends in \<open>encode_frames fs\<close>, the first one at \<open>off\<close>\<close>
  "frame_bounds off [] = []"
| "frame_bounds off (f # fs) =
     (off, off + 3 + int (length (snd f))) # frame_bounds (off + 3 + int (length (snd f))) fs"

fun dispatch_frames ::
  "runtime \<Rightarrow> ref \<Rightarrow> buffer \<Rightarrow> ref option \<Rightarrow> (int \<times> int) list \<Rightarrow> state \<Rightarrow> outcome option" where
  \<comment> \<open>one call of \<open>dispatch\<close> per frame, in order, up to the first one that throws or does
      not return\<close>
  "dispatch_frames rt socket data serverSocket [] st = Some (Done st)"
| "dispatch_frames rt socket data serverSocket ((off, end) # bs) st =
     (case dispatch rt socket data serverSocket off end st of
        None \<Rightarrow> None
      | Some (Threw e st') \<Rightarrow> Some (Threw e st')
      | Some (Done st') \<Rightarrow> dispatch_frames rt socket data serverSocket bs st')"

section \<open>Broadcasts and the registry\<close>

text \<open>
  \<open>others st socket\<close> are the sockets the loops of the form
  \<open>Object.values(idToSocket).forEach(_sock => { if (_sock.id != socket.id) ... })\<close>
  reach. \<open>registry_ok\<close> is the shape \<open>serverCode\<close> gives the registry: the keys ascend
  and every socket sits under its own session id.
\<close>

definition others :: "state \<Rightarrow> ref \<Rightarrow> ref list" where
  "others st socket =
     filter (\<lambda>s. sock_id (sockets st s) \<noteq> sock_id (sockets st socket))
       (Object_values (idToSocket st))"

definition registry_ok :: "state \<Rightarrow> bool" where
  "registry_ok st =
     (sorted_wrt (<) (map fst (idToSocket st)) \<and>
      (\<forall>(k, r) \<in> set (idToSocket st). sock_id (sockets st r) = int k))"

text \<open>
  \<open>same_sessions st st'\<close>: the step from \<open>st\<close> to \<open>st'\<close> has kept the registry and the
  session id of every socket.
\<close>

definition same_sessions :: "state \<Rightarrow> state \<Rightarrow> bool" where
  "same_sessions st st' =
     (idToSocket st' = idToSocket st \<and>
      (\<forall>r. sock_id (sockets st' r) = sock_id (sockets st r)))"

section \<open>A runtime and states for the examples\<close>

text \<open>
  The examples run with a concrete runtime. Its decoder is the identity (every example
  is ASCII), and its JSON functions are tables: the values \<open>JSON.parse\<close> and
  \<open>JSON.stringify\<close> have at the texts and objects the examples use. The text \<open>{\<close> is
  not JSON, so \<open>JSON.parse\<close> throws on it.
\<close>

definition demo_parse :: "jstring \<Rightarrow> json option" where
  \<open>demo_parse s =
     (if s = ''{"uid":"p1"}'' then Some (JObj [(''uid'', JStr ''p1'')])
      else if s = ''{}'' then Some (JObj [])
      else None)\<close>

definition demo_stringify :: "json \<Rightarrow> jstring" where
  \<open>demo_stringify d =
     (if d = JObj [(''uid'', JStr ''p1'')] then ''{"uid":"p1"}''
      else if d = JObj [(''uid'', JStr ''p1f'')] then ''{"uid":"p1f"}''
      else if d = JObj [(''uid'', JStr ''p2'')] then ''{"uid":"p2"}''
      else if d = JObj [] then ''{}''
      else [])\<close>

definition demo_runtime :: runtime where
  "demo_runtime =
     \<lparr>toString_utf8 = (\<lambda>b. b), JSON_parse = demo_parse, JSON_stringify = demo_stringify\<rparr>"

text \<open>
  Three accepted connections: the socket objects 10, 11 and 12 hold the session ids 0, 1
  and 2. Sockets 10 and 12 have sent their identity (\<open>p1\<close> and \<open>p2\<close>); socket 11 still has
  the uid it was given when it was accepted.
\<close>

definition lobby :: state where
  "lobby =
     \<lparr>serverIndex = 0, playerCount = 3,
      idToSocket = [(0, 10), (1, 11), (2, 12)],
      socketToData = [(''p1'', JObj [(''uid'', JStr ''p1'')]), (''p2'', JObj [(''uid'', JStr ''p2'')])],
      unifiedCluster = False, nodes = JObj [],
      sockets = (\<lambda>r. \<lparr>isWS = False, uid = Some (JStr ''uuid''), sock_id = int r - 10\<rparr>)
        (10 := \<lparr>isWS = False, uid = Some (JStr ''p1''), sock_id = 0\<rparr>,
         12 := \<lparr>isWS = True, uid = Some (JStr ''p2''), sock_id = 2\<rparr>),
      sent = []\<rparr>"


text \<open>
  A node whose rolling counter has wrapped: it has accepted 256 connections, and all of
  them have left but the first two, the socket objects 10 and 11 with the session ids 0
  and 1. The counter is back at 0.
\<close>

definition wrapped :: state where
  "wrapped =
     \<lparr>serverIndex = 0, playerCount = 0,
      idToSocket = [(0, 10), (1, 11)],
      socketToData = [],
      unifiedCluster = False, nodes = JObj [],
      sockets = (\<lambda>r. \<lparr>isWS = False, uid = Some (JStr ''uuid''), sock_id = int r - 10\<rparr>),
      sent = []\<rparr>"

text \<open>
  The same node after it has accepted one more connection, the socket object 20: the
  new socket has the session id 0 and has taken the place of socket 10 in the registry.
  Socket 10 is still open and keeps its session id and its data handler.
\<close>

definition wrapped_accept :: state where
  "wrapped_accept =
     wrapped\<lparr>sockets := (sockets wrapped)
                 (20 := \<lparr>isWS = False, uid = Some (JStr ''u20''), sock_id = 0\<rparr>),
             playerCount := 1,
             idToSocket := [(0, 20), (1, 11)],
             sent := [(20, CHR 0x01 # CHR 0x00 # CHR 0x00 # ''u20'' @ replicate 506 (CHR 0x00))]\<rparr>"


section \<open>Bytes and packets: basic facts\<close>

lemma of_char_of_int: "(of_char (char_of (i::int)) :: nat) = nat (i mod 256)"
proof -
  have "int (of_char (char_of i) :: nat) = (of_char (char_of i) :: int)"
    by (rule of_nat_of_char)
  then show ?thesis by simp
qed

lemma length_utf8_fit: "length (utf8_fit room s) \<le> room"
proof -
  have "length (dropWhile is_continuation (rev (take room s))) \<le> room"
    using length_dropWhile_le [of is_continuation "rev (take room s)"] by simp
  then show ?thesis
    unfolding utf8_fit_def by auto
qed

lemma readUInt8_Cons0: "readUInt8 (c # cs) 0 = Some (of_char c)"
  by (simp add: readUInt8_def)

lemma alloc_4096: "alloc 4096 = CHR 0x00 # CHR 0x00 # replicate 4094 (CHR 0x00)"
proof -
  have "(4096::nat) = Suc (Suc 4094)" by simp
  then show ?thesis unfolding alloc_def by (simp only: replicate_Suc)
qed

lemma alloc_512:
  "alloc 512 = CHR 0x00 # CHR 0x00 # CHR 0x00 # replicate 509 (CHR 0x00)"
proof -
  have "(512::nat) = Suc (Suc (Suc 509))" by simp
  then show ?thesis unfolding alloc_def by (simp only: replicate_Suc)
qed

lemma utf8_fit_short: "length s \<le> room \<Longrightarrow> utf8_fit room s = s"
  by (simp add: utf8_fit_def)

lemma message_packet_bytes:
  "message_packet text =
     Some (CHR 0x02 # utf8_fit 4095 text @ replicate (4095 - length (utf8_fit 4095 text)) (CHR 0x00))"
proof -
  have "drop (length (utf8_fit 4095 text)) (CHR 0x00 # replicate 4094 (CHR 0x00)) =
      replicate (4095 - length (utf8_fit 4095 text)) (CHR 0x00)"
    using drop_replicate [of "length (utf8_fit 4095 text)" 4095 "CHR 0x00"]
    by (simp only: replicate_Suc [symmetric]) simp
  then show ?thesis
    by (simp add: message_packet_def writeUInt8_def alloc_4096 buf_write_def char_of_eq_iff Let_def)
qed

lemma heartbeat_packet_bytes: "heartbeat_packet = Some (CHR 0x0A # replicate 511 (CHR 0x00))"
proof -
  have "CHR 0x00 # CHR 0x00 # replicate 509 (CHR 0x00) = replicate 511 (CHR 0x00)"
    by (simp only: replicate_Suc [symmetric]) simp
  then show ?thesis
    by (simp add: heartbeat_packet_def writeUInt8_def alloc_512 char_of_eq_iff)
qed

lemma drop_3_plus: "drop (3 + n) (a # b # c # xs) = drop n xs"
  by (simp add: numeral_3_eq_3)

lemma leave_packet_bytes:
  assumes "0 \<le> i" and "i \<le> 65535"
  shows "leave_packet i =
     Some (CHR 0x08 # char_of (i mod 256) # char_of (i div 256) # replicate 509 (CHR 0x00))"
  using assms
  by (simp add: leave_packet_def writeUInt8_def writeUInt16LE_def alloc_512 char_of_eq_iff
      del: char_of_mod_256)

lemma leave_packet_None: "i < 0 \<or> 65535 < i \<Longrightarrow> leave_packet i = None"
  by (auto simp add: leave_packet_def writeUInt8_def writeUInt16LE_def)

lemma assign_packet_bytes:
  assumes "0 \<le> i" and "i \<le> 65535"
  shows "assign_packet i u =
     Some (CHR 0x01 # char_of (i mod 256) # char_of (i div 256) #
             utf8_fit 509 u @ replicate (509 - length (utf8_fit 509 u)) (CHR 0x00))"
  using assms
  by (simp add: assign_packet_def writeUInt8_def writeUInt16LE_def alloc_512 char_of_eq_iff
      buf_write_def Let_def drop_3_plus del: char_of_mod_256)

lemma playerData_text_bytes:
  assumes "0 \<le> i" and "i \<le> 65535" and "t \<le> 255"
  shows "playerData_packet t (Text s) i =
     Some (char_of t # char_of (i mod 256) # char_of (i div 256) #
             utf8_fit 509 s @ replicate (509 - length (utf8_fit 509 s)) (CHR 0x00))"
  using assms
  by (simp add: playerData_packet_def writeUInt8_def writeUInt16LE_def alloc_512
      buf_write_def Let_def drop_3_plus del: char_of_mod_256)

lemma playerData_position_bytes:
  assumes "0 \<le> i" and "i \<le> 65535" and "t \<le> 255"
    and "- 32768 \<le> x" and "x \<le> 32767" and "- 32768 \<le> y" and "y \<le> 32767" and "f \<le> 255"
  shows "playerData_packet t (Position x y f) i =
     Some (char_of t # char_of (i mod 256) # char_of (i div 256) #
             char_of (x mod 256) # char_of ((x mod 65536) div 256) #
             char_of (y mod 256) # char_of ((y mod 65536) div 256) #
             char_of f # replicate 504 (CHR 0x00))"
proof -
  have "(509::nat) = Suc (Suc (Suc (Suc (Suc 504))))" by simp
  then have r: "replicate 509 (CHR 0x00) =
      CHR 0x00 # CHR 0x00 # CHR 0x00 # CHR 0x00 # CHR 0x00 # replicate 504 (CHR 0x00)"
    by (simp only: replicate_Suc)
  show ?thesis
    using assms
    by (simp add: playerData_packet_def writeUInt8_def writeUInt16LE_def writeInt16LE_def
        alloc_512 r del: char_of_mod_256)
qed


lemma count_packet_bytes:
  "count_packet n =
     (if n \<le> 255 then Some (CHR 0x28 # char_of n # replicate 510 (CHR 0x00)) else None)"
proof -
  have "CHR 0x00 # replicate 509 (CHR 0x00) = replicate 510 (CHR 0x00)"
    by (simp only: replicate_Suc [symmetric]) simp
  then show ?thesis
    by (simp add: count_packet_def writeUInt8_def alloc_512 char_of_eq_iff)
qed

lemma sent_lobby: "sent lobby = []"
  by (simp add: lobby_def)

lemma char_of_small:
  "char_of (0::int) = CHR 0x00" "char_of (1::int) = CHR 0x01" "char_of (2::int) = CHR 0x02"
  by (simp_all add: char_of_eq_iff)

section \<open>Sanitizing a decoded string\<close>

text \<open>
  What \<open>readBufString\<close> does to the decoded string: it removes every \<open>0x00\<close> and the
  first \<open>0x05\<close>. The result never contains \<open>0x00\<close>, has one \<open>0x05\<close> fewer than the
  decoded string (none fewer when there is none), and keeps every other character in
  its place.
\<close>

lemma readBufString_sanitized:
  "CHR 0x00 \<notin> set (readBufString rt str ind end) \<and>
   count_list (readBufString rt str ind end) (CHR 0x05) =
     count_list (toString_utf8 rt (buf_slice str ind end)) (CHR 0x05) - 1 \<and>
   filter (\<lambda>c. c \<noteq> CHR 0x05) (readBufString rt str ind end) =
     filter (\<lambda>c. c \<noteq> CHR 0x00 \<and> c \<noteq> CHR 0x05) (toString_utf8 rt (buf_slice str ind end))"
proof -
  have cnt: "count_list (remove1 x xs) x = count_list xs x - 1" for x :: char and xs
    by (induction xs) auto
  have flt: "filter (\<lambda>c. c \<noteq> x) (remove1 x xs) = filter (\<lambda>c. c \<noteq> x) xs" for x :: char and xs
    by (induction xs) auto
  have cf: "count_list (filter (\<lambda>c. c \<noteq> CHR 0x00) xs) (CHR 0x05) = count_list xs (CHR 0x05)" for xs
    by (induction xs) auto
  have "CHR 0x00 \<notin> set (readBufString rt str ind end)"
    using set_remove1_subset [of "CHR 0x05"] by (fastforce simp: readBufString_def)
  then show ?thesis
    by (simp add: readBufString_def cnt flt cf conj_commute)
qed

text \<open>
  C8: the sanitized string is to contain neither \<open>0x00\<close> nor \<open>0x05\<close>. The first
  \<open>replace\<close> of \<open>readBufString\<close> has a global pattern and removes every \<open>0x00\<close>; the
  second has a string for its pattern, and such a \<open>replace\<close> stops after the first
  match. On a payload with two bytes \<open>0x05\<close> the second one stays.
\<close>

theorem readBufString_keeps_second_marker:
  "readBufString demo_runtime [CHR 0x05, CHR 0x05] 0 2 = [CHR 0x05] \<and>
   CHR 0x05 \<in> set (readBufString demo_runtime [CHR 0x05, CHR 0x05] 0 2)"
  by (simp add: readBufString_def demo_runtime_def buf_slice_def)

section \<open>Cluster packets on the parent connection\<close>

text \<open>
  C7: a read on the parent connection whose first byte is \<open>clusterNet.serverData\<close> (44)
  never replaces \<open>nodes\<close>. Whatever the payload, the handler throws: a SyntaxError
  when the payload is not JSON, and otherwise the TypeError of the assignment to the
  constant \<open>nodes\<close>. The state, \<open>nodes\<close> included, is the one before the read.
\<close>

theorem serverData_always_throws:
  "on_parent_data n rt socket (CHR 0x2C # payload) st =
     Some (Threw
       (if JSON_parse rt (readBufString rt (CHR 0x2C # payload) 1 (1 + int (length payload))) = None
        then SyntaxError else TypeError) st)"
  by (simp add: on_parent_data_def readUInt8_Cons0 split: option.split)

section \<open>The leave sub-packet\<close>

text \<open>
  C5: a read whose first sub-packet has the type byte \<open>clusterNet.leave\<close> (46) makes
  \<open>processPacket\<close> throw a ReferenceError, whatever \<open>unifiedCluster\<close> is and whether
  or not there is a parent: nothing is written to any socket, so the sub-packet is not
  forwarded.
\<close>

theorem leave_packet_throws:
  "processPacket (Suc n) rt socket (a # b # CHR 0x2E # rest) serverSocket st =
     Some (Threw ReferenceError st)"
  by (simp add: processPacket_def readInt16LE_def dispatch_def readUInt8_def handle_leave_def Let_def)

section \<open>Framing\<close>

lemma length_encode_frame: "length (encode_frame f) = 3 + length (snd f)"
  by (simp add: encode_frame_def)

lemma nth_frame_type: "(pre @ encode_frame f @ post) ! (length pre + 2) = fst f"
  by (simp add: encode_frame_def nth_append)

lemma readInt16LE_frame:
  assumes "length (snd f) \<le> 32764"
  shows "readInt16LE (pre @ encode_frame f @ post) (int (length pre)) = Some (3 + int (length (snd f)))"
proof -
  let ?n = "3 + length (snd f)"
  have b0: "(pre @ encode_frame f @ post) ! length pre = char_of (?n mod 256)"
    by (simp add: encode_frame_def nth_append)
  have b1: "(pre @ encode_frame f @ post) ! Suc (length pre) = char_of (?n div 256)"
    by (simp add: encode_frame_def nth_append)
  have small: "?n div 256 < 256" using assms by simp
  have "int (?n mod 256) + 256 * int (?n div 256) = int ?n"
    by (metis mult.commute of_nat_add of_nat_mult of_nat_numeral mult_div_mod_eq add.commute)
  with assms small show ?thesis
    by (simp add: readInt16LE_def b0 b1 length_encode_frame Let_def del: char_of_mod_256)
qed

lemma readUInt8_frame:
  "readUInt8 (pre @ encode_frame f @ post) (2 + int (length pre)) = Some (of_char (fst f))"
proof -
  have "nat (2 + int (length pre)) = length pre + 2" by simp
  then show ?thesis
    using nth_frame_type [of pre f post]
    by (simp add: readUInt8_def length_encode_frame)
qed

lemma buf_slice_frame:
  "buf_slice (pre @ encode_frame f @ post) (int (length pre) + 3)
     (int (length pre) + 3 + int (length (snd f))) = snd f"
proof -
  have n: "nat (int (length pre) + 3) = length pre + 3" by simp
  have d: "drop (length pre + 3) (pre @ encode_frame f @ post) = snd f @ post"
    by (simp add: encode_frame_def)
  have pos: "snd f \<noteq> [] \<Longrightarrow> 0 < int (length (snd f)) + int (length post)"
    by (cases "snd f") simp_all
  show ?thesis
    using pos
    by (cases "snd f = []") (auto simp add: buf_slice_def Let_def length_encode_frame n d min_def max_def encode_frame_def)
qed

lemma loop_frames:
  assumes "\<forall>f \<in> set fs. length (snd f) \<le> 32764" and "length fs \<le> n"
  shows "processPacket_loop n rt socket (pre @ encode_frames fs) serverSocket (int (length pre)) st =
         dispatch_frames rt socket (pre @ encode_frames fs) serverSocket
           (frame_bounds (int (length pre)) fs) st"
  using assms
proof (induction fs arbitrary: pre n st)
  case Nil
  then show ?case by (cases n) (simp_all add: encode_frames_def)
next
  case (Cons f fs)
  then obtain m where n: "n = Suc m" and m: "length fs \<le> m"
    by (cases n) auto
  let ?data = "pre @ encode_frames (f # fs)"
  have data: "?data = pre @ encode_frame f @ encode_frames fs"
    by (simp add: encode_frames_def)
  have data': "?data = (pre @ encode_frame f) @ encode_frames fs"
    by (simp add: encode_frames_def)
  have len: "readInt16LE ?data (int (length pre)) = Some (3 + int (length (snd f)))"
    unfolding data using Cons.prems(1) by (intro readInt16LE_frame) simp
  have lt: "int (length pre) < int (length ?data)"
    by (simp add: data length_encode_frame)
  have next_off: "int (length pre) + (3 + int (length (snd f))) = int (length (pre @ encode_frame f))"
    by (simp add: length_encode_frame)
  have IH: "processPacket_loop m rt socket ?data serverSocket (int (length (pre @ encode_frame f))) st' =
        dispatch_frames rt socket ?data serverSocket
          (frame_bounds (int (length (pre @ encode_frame f))) fs) st'" for st'
    unfolding data' using Cons.prems(1) m by (intro Cons.IH) simp_all
  have fb: "frame_bounds (int (length pre)) (f # fs) =
      (int (length pre), int (length (pre @ encode_frame f))) #
        frame_bounds (int (length (pre @ encode_frame f))) fs"
    by (simp add: length_encode_frame add.assoc)
  show ?case
  proof (cases "dispatch rt socket ?data serverSocket (int (length pre))
      (int (length (pre @ encode_frame f))) st")
    case None
    then show ?thesis
      unfolding n fb
      by (simp only: processPacket_loop.simps lt if_True len option.case next_off
          dispatch_frames.simps)
  next
    case (Some r)
    then show ?thesis
      unfolding n fb
      by (cases r)
        (simp_all only: processPacket_loop.simps lt if_True len option.case next_off
          dispatch_frames.simps outcome.case IH)
  qed
qed

lemma frames_recovered:
  "map (\<lambda>(off, end). ((pre @ encode_frames fs) ! nat (off + 2),
          buf_slice (pre @ encode_frames fs) (off + 3) end))
     (frame_bounds (int (length pre)) fs) = fs"
proof (induction fs arbitrary: pre)
  case Nil
  then show ?case by simp
next
  case (Cons f fs)
  let ?data = "pre @ encode_frames (f # fs)"
  have data: "?data = pre @ encode_frame f @ encode_frames fs"
    by (simp add: encode_frames_def)
  have data': "?data = (pre @ encode_frame f) @ encode_frames fs"
    by (simp add: encode_frames_def)
  have next_off: "int (length pre) + 3 + int (length (snd f)) = int (length (pre @ encode_frame f))"
    by (simp add: length_encode_frame)
  have t: "?data ! nat (int (length pre) + 2) = fst f"
    unfolding data using nth_frame_type [of pre f "encode_frames fs"] by (simp add: nat_add_distrib)
  have p: "buf_slice ?data (int (length pre) + 3) (int (length (pre @ encode_frame f))) = snd f"
    unfolding data next_off [symmetric] by (rule buf_slice_frame)
  have IH: "map (\<lambda>(off, end). (?data ! nat (off + 2), buf_slice ?data (off + 3) end))
     (frame_bounds (int (length (pre @ encode_frame f))) fs) = fs"
    unfolding data' by (rule Cons.IH)
  show ?case
    unfolding frame_bounds.simps next_off list.map prod.case t p IH by simp
qed

lemma length_frame_bounds: "length (frame_bounds off fs) = length fs"
  by (induction fs arbitrary: off) simp_all

lemma trace_loop:
  "map_option snd (processPacket_trace n rt socket data serverSocket off st) =
     processPacket_loop n rt socket data serverSocket off st"
proof (induction n arbitrary: off st)
  case 0
  then show ?case by simp
next
  case (Suc n)
  show ?case
  proof (cases "off < int (length data)")
    case False
    then show ?thesis by simp
  next
    case True
    show ?thesis
    proof (cases "readInt16LE data off")
      case None
      with True show ?thesis by simp
    next
      case (Some len)
      show ?thesis
      proof (cases "dispatch rt socket data serverSocket off (off + len) st")
        case None
        with True Some show ?thesis by simp
      next
        case d: (Some r)
        show ?thesis
        proof (cases r)
          case (Threw e st')
          with True Some d show ?thesis by simp
        next
          case (Done st')
          have "map_option snd (map_option (\<lambda>(tr, r). ((off, off + len) # tr, r))
                  (processPacket_trace n rt socket data serverSocket (off + len) st')) =
                map_option snd (processPacket_trace n rt socket data serverSocket (off + len) st')"
            by (cases "processPacket_trace n rt socket data serverSocket (off + len) st'") auto
          with True Some d Done Suc.IH [of "off + len" st'] show ?thesis by simp
        qed
      qed
    qed
  qed
qed

lemma trace_frames:
  assumes "\<forall>f \<in> set fs. length (snd f) \<le> 32764" and "length fs \<le> n"
  shows "case processPacket_trace n rt socket (pre @ encode_frames fs) serverSocket
                (int (length pre)) st of
           None \<Rightarrow> dispatch_frames rt socket (pre @ encode_frames fs) serverSocket
                     (frame_bounds (int (length pre)) fs) st = None
         | Some (tr, r) \<Rightarrow>
             tr = take (length tr) (frame_bounds (int (length pre)) fs) \<and>
             dispatch_frames rt socket (pre @ encode_frames fs) serverSocket tr st = Some r \<and>
             (\<exists>st'. dispatch_frames rt socket (pre @ encode_frames fs) serverSocket
                      (butlast tr) st = Some (Done st')) \<and>
             (case r of Done st' \<Rightarrow> length tr = length fs | Threw e st' \<Rightarrow> tr \<noteq> [])"
  using assms
proof (induction fs arbitrary: pre n st)
  case Nil
  then show ?case by (cases n) (simp_all add: encode_frames_def)
next
  case (Cons f fs)
  then obtain m where n: "n = Suc m" and m: "length fs \<le> m"
    by (cases n) auto
  let ?data = "pre @ encode_frames (f # fs)"
  let ?e = "int (length (pre @ encode_frame f))"
  have data: "?data = pre @ encode_frame f @ encode_frames fs"
    by (simp add: encode_frames_def)
  have data': "?data = (pre @ encode_frame f) @ encode_frames fs"
    by (simp add: encode_frames_def)
  have len: "readInt16LE ?data (int (length pre)) = Some (3 + int (length (snd f)))"
    unfolding data using Cons.prems(1) by (intro readInt16LE_frame) simp
  have lt: "int (length pre) < int (length ?data)"
    by (simp add: data length_encode_frame)
  have next_off: "int (length pre) + (3 + int (length (snd f))) = ?e"
    by (simp add: length_encode_frame)
  note IH = Cons.IH [of m "pre @ encode_frame f", unfolded data' [symmetric]]
  have fb: "frame_bounds (int (length pre)) (f # fs) =
      (int (length pre), ?e) # frame_bounds ?e fs"
    by (simp add: length_encode_frame add.assoc)
  have step: "processPacket_trace n rt socket ?data serverSocket (int (length pre)) st =
     (case dispatch rt socket ?data serverSocket (int (length pre)) ?e st of
                None \<Rightarrow> None
              | Some (Threw e st') \<Rightarrow> Some ([(int (length pre), ?e)], Threw e st')
              | Some (Done st') \<Rightarrow>
                  map_option (\<lambda>(tr, r). ((int (length pre), ?e) # tr, r))
                    (processPacket_trace m rt socket ?data serverSocket ?e st'))"
    unfolding n by (simp only: processPacket_trace.simps lt if_True len option.case next_off)
  show ?case
  proof (cases "dispatch rt socket ?data serverSocket (int (length pre)) ?e st")
    case None
    then show ?thesis
      unfolding step fb by simp
  next
    case d: (Some r)
    show ?thesis
    proof (cases r)
      case (Threw e st')
      with d show ?thesis unfolding step fb by simp
    next
      case (Done st')
      have ih: "case processPacket_trace m rt socket ?data serverSocket ?e st' of
           None \<Rightarrow> dispatch_frames rt socket ?data serverSocket (frame_bounds ?e fs) st' = None
         | Some (tr, r) \<Rightarrow>
             tr = take (length tr) (frame_bounds ?e fs) \<and>
             dispatch_frames rt socket ?data serverSocket tr st' = Some r \<and>
             (\<exists>st''. dispatch_frames rt socket ?data serverSocket (butlast tr) st' = Some (Done st'')) \<and>
             (case r of Done st' \<Rightarrow> length tr = length fs | Threw e st' \<Rightarrow> tr \<noteq> [])"
        using IH [of st'] Cons.prems(1) m by simp
      show ?thesis
      proof (cases "processPacket_trace m rt socket ?data serverSocket ?e st'")
        case None
        with ih d Done show ?thesis unfolding step fb by simp
      next
        case (Some p)
        obtain tr r' where p: "p = (tr, r')" by (cases p)
        from ih Some p have a: "tr = take (length tr) (frame_bounds ?e fs)"
          and b: "dispatch_frames rt socket ?data serverSocket tr st' = Some r'"
          and c: "\<exists>st''. dispatch_frames rt socket ?data serverSocket (butlast tr) st' = Some (Done st'')"
          and e: "case r' of Done st' \<Rightarrow> length tr = length fs | Threw e st' \<Rightarrow> tr \<noteq> []"
          by simp_all
        have bl: "\<exists>st''. dispatch_frames rt socket ?data serverSocket
            (butlast ((int (length pre), ?e) # tr)) st = Some (Done st'')"
          using c d Done by (cases tr) simp_all
        have a': "(int (length pre), ?e) # tr =
            take (length ((int (length pre), ?e) # tr)) (frame_bounds (int (length pre)) (f # fs))"
          unfolding fb using a by simp
        have e': "case r' of Done st' \<Rightarrow> length ((int (length pre), ?e) # tr) = length (f # fs)
            | Threw e st' \<Rightarrow> (int (length pre), ?e) # tr \<noteq> []"
          using e by (cases r') simp_all
        have b': "dispatch_frames rt socket ?data serverSocket ((int (length pre), ?e) # tr) st = Some r'"
          using b d Done by simp
        show ?thesis
          unfolding step d Done option.case outcome.case Some p map_option_case prod.case
          using a' b' bl e' by blast
      qed
    qed
  qed
qed


lemma frames_recovered_take:
  "map (\<lambda>(off, end). ((pre @ encode_frames fs) ! nat (off + 2),
          buf_slice (pre @ encode_frames fs) (off + 3) end))
     (take k (frame_bounds (int (length pre)) fs)) = take k fs"
  using frames_recovered [of pre fs] by (simp add: take_map [symmetric])

text \<open>
  C1, as the specification words it, does not hold. A read of two well-formed
  sub-packets, an email sub-packet (type \<open>0x1A\<close>) and a heartbeat, makes the loop reach
  the \<open>switch\<close> once, not twice: the email case throws a ReferenceError (line 227 reads
  \<open>socketToName\<close>), nothing catches it, and the heartbeat is never dispatched.
\<close>

theorem framing_stops_at_throw:
  "processPacket 2 demo_runtime 11 (encode_frames [(CHR 0x1A, []), (CHR 0x1D, [])]) None lobby =
     Some (Threw ReferenceError lobby) \<and>
   processPacket_trace 2 demo_runtime 11 (encode_frames [(CHR 0x1A, []), (CHR 0x1D, [])])
       None 0 lobby =
     Some ([(0, 3)], Threw ReferenceError lobby) \<and>
   frame_bounds 0 [(CHR 0x1A, []), (CHR 0x1D, [])] = [(0, 3), (3, 6)]"
proof -
  have d: "encode_frames [(CHR 0x1A, []), (CHR 0x1D, [])] =
      [CHR 0x03, CHR 0x00, CHR 0x1A, CHR 0x03, CHR 0x00, CHR 0x1D]"
    by (simp add: encode_frames_def encode_frame_def char_of_eq_iff)
  show ?thesis
    unfolding d
    by (simp add: numeral_2_eq_2 processPacket_def readInt16LE_def dispatch_def readUInt8_def
        handle_email_def Let_def)
qed

text \<open>
  C1, amended: a read that holds \<open>k\<close> sub-packets back to back, each one its length as
  int16-LE, its type byte and its payload (at most 32764 bytes, so that the length
  fits), makes the loop of \<open>processPacket\<close> reach the \<open>switch\<close> at the bounds \<open>offset\<close> and
  \<open>end = offset + frameLength\<close> of the sub-packets, in order and starting with the first
  one, and the type byte at \<open>offset + 2\<close> and the bytes of \<open>[offset + 3, end)\<close> of each
  pass are the type and the payload that were encoded. Every case before the last one
  reached has returned normally. The loop reaches all \<open>k\<close> sub-packets exactly when no
  case throws: a read that returns normally has made \<open>k\<close> passes, and a read that throws
  has stopped at the sub-packet whose case threw. \<open>k\<close> units of fuel are enough: the read
  does not return only if a case does not return.
\<close>

theorem framing_dispatch:
  assumes "\<forall>f \<in> set fs. length (snd f) \<le> 32764" and "length fs \<le> n"
  shows "processPacket n rt socket (encode_frames fs) serverSocket st =
           map_option snd
             (processPacket_trace n rt socket (encode_frames fs) serverSocket 0 st) \<and>
         (case processPacket_trace n rt socket (encode_frames fs) serverSocket 0 st of
            None \<Rightarrow>
              dispatch_frames rt socket (encode_frames fs) serverSocket (frame_bounds 0 fs) st
                = None
          | Some (tr, r) \<Rightarrow>
              tr = take (length tr) (frame_bounds 0 fs) \<and>
              map (\<lambda>(off, end). (encode_frames fs ! nat (off + 2),
                     buf_slice (encode_frames fs) (off + 3) end)) tr = take (length tr) fs \<and>
              dispatch_frames rt socket (encode_frames fs) serverSocket tr st = Some r \<and>
              (\<exists>st'. dispatch_frames rt socket (encode_frames fs) serverSocket (butlast tr) st
                       = Some (Done st')) \<and>
              (case r of Done st' \<Rightarrow> length tr = length fs | Threw e st' \<Rightarrow> tr \<noteq> []))"
proof -
  let ?data = "encode_frames fs"
  let ?t = "processPacket_trace n rt socket ?data serverSocket 0 st"
  have a: "processPacket n rt socket ?data serverSocket st = map_option snd ?t"
    by (simp add: processPacket_def trace_loop)
  have b: "case ?t of
           None \<Rightarrow> dispatch_frames rt socket ?data serverSocket (frame_bounds 0 fs) st = None
         | Some (tr, r) \<Rightarrow>
             tr = take (length tr) (frame_bounds 0 fs) \<and>
             dispatch_frames rt socket ?data serverSocket tr st = Some r \<and>
             (\<exists>st'. dispatch_frames rt socket ?data serverSocket (butlast tr) st = Some (Done st')) \<and>
             (case r of Done st' \<Rightarrow> length tr = length fs | Threw e st' \<Rightarrow> tr \<noteq> [])"
    using trace_frames [OF assms, of rt socket "[]" serverSocket st]
    unfolding append_Nil list.size of_nat_0 .
  show ?thesis
  proof (cases ?t)
    case None
    with a b show ?thesis by simp
  next
    case (Some p)
    obtain tr r where p: "p = (tr, r)" by (cases p)
    from b Some p have pre: "tr = take (length tr) (frame_bounds 0 fs)" by simp
    have "map (\<lambda>(off, end). (?data ! nat (off + 2), buf_slice ?data (off + 3) end))
            (take (length tr) (frame_bounds 0 fs)) = take (length tr) fs"
      using frames_recovered_take [of "[]" fs "length tr"] by simp
    with pre have "map (\<lambda>(off, end). (?data ! nat (off + 2), buf_slice ?data (off + 3) end)) tr
        = take (length tr) fs"
      by simp
    with a b Some p show ?thesis by simp
  qed
qed

theorem framing_dispatch_witness:
  "processPacket 2 demo_runtime 11 (encode_frames [(CHR 0x19, ''hi''), (CHR 0x1D, [])]) None lobby =
     Some (Done (lobby\<lparr>sent :=
       [(10, CHR 0x02 # ''hi'' @ replicate 4093 (CHR 0x00)),
        (12, CHR 0x02 # ''hi'' @ replicate 4093 (CHR 0x00)),
        (11, CHR 0x0A # replicate 511 (CHR 0x00))]\<rparr>)) \<and>
   map_option fst (processPacket_trace 2 demo_runtime 11
       (encode_frames [(CHR 0x19, ''hi''), (CHR 0x1D, [])]) None 0 lobby) =
     Some [(0, 5), (5, 8)]"
proof -
  have h: "\<forall>f \<in> set [(CHR 0x19, ''hi''), (CHR 0x1D, [])]. length (snd f) \<le> 32764"
    by simp
  have d: "encode_frames [(CHR 0x19, ''hi''), (CHR 0x1D, [])] =
      [CHR 0x05, CHR 0x00, CHR 0x19, CHR ''h'', CHR ''i'', CHR 0x03, CHR 0x00, CHR 0x1D]"
    by (simp add: encode_frames_def encode_frame_def char_of_eq_iff)
  have t: "processPacket_trace 2 demo_runtime 11
       [CHR 0x05, CHR 0x00, CHR 0x19, CHR ''h'', CHR ''i'', CHR 0x03, CHR 0x00, CHR 0x1D]
       None 0 lobby =
     Some ([(0, 5), (5, 8)], Done (lobby\<lparr>sent :=
       [(10, CHR 0x02 # ''hi'' @ replicate 4093 (CHR 0x00)),
        (12, CHR 0x02 # ''hi'' @ replicate 4093 (CHR 0x00)),
        (11, CHR 0x0A # replicate 511 (CHR 0x00))]\<rparr>))"
    by (simp add: numeral_2_eq_2 readInt16LE_def dispatch_def readUInt8_def handle_message_def
        handle_heartbeat_def readBufString_def demo_runtime_def buf_slice_def lobby_def
        Object_values_def message_packet_bytes heartbeat_packet_bytes utf8_fit_short
        writeToSocket_def Let_def)
  show ?thesis
    using framing_dispatch [OF h, of 2 demo_runtime 11 None lobby]
    unfolding d t by simp
qed

section \<open>Chat\<close>

lemma forEach_sends:
  assumes "\<And>s x. s \<in> set xs \<Longrightarrow>
     f s (st\<lparr>sent := x\<rparr>) =
       (if P s then Done (writeToSocket (Some (g s)) (b s) (st\<lparr>sent := x\<rparr>))
        else Done (st\<lparr>sent := x\<rparr>))"
  shows "forEach f xs (st\<lparr>sent := y\<rparr>) =
     Done (st\<lparr>sent := y @ map (\<lambda>s. (g s, b s)) (filter P xs)\<rparr>)"
  using assms
proof (induction xs arbitrary: y)
  case Nil
  then show ?case by simp
next
  case (Cons s xs)
  have step: "f s (st\<lparr>sent := y\<rparr>) =
      (if P s then Done (st\<lparr>sent := y @ [(g s, b s)]\<rparr>) else Done (st\<lparr>sent := y\<rparr>))"
    using Cons.prems [of s y] by (simp add: writeToSocket_def)
  have rest: "forEach f xs (st\<lparr>sent := z\<rparr>) =
      Done (st\<lparr>sent := z @ map (\<lambda>s. (g s, b s)) (filter P xs)\<rparr>)" for z
    by (rule Cons.IH) (simp add: Cons.prems)
  show ?case
    by (cases "P s") (simp_all add: step rest)
qed

lemma forEach_sends':
  assumes "\<And>s x. s \<in> set xs \<Longrightarrow>
     f s (st\<lparr>sent := x\<rparr>) =
       (if P s then Done (writeToSocket (Some (g s)) (b s) (st\<lparr>sent := x\<rparr>))
        else Done (st\<lparr>sent := x\<rparr>))"
  shows "forEach f xs st = Done (st\<lparr>sent := sent st @ map (\<lambda>s. (g s, b s)) (filter P xs)\<rparr>)"
  using forEach_sends [where y = "sent st" and st = st, OF assms] by simp

lemma handle_message_sent:
  "handle_message rt socket data off end st =
     Done (st\<lparr>sent := sent st @
       map (\<lambda>s. (s, CHR 0x02 # utf8_fit 4095 (readBufString rt data (3 + off) end) @
                    replicate (4095 - length (utf8_fit 4095 (readBufString rt data (3 + off) end)))
                      (CHR 0x00)))
         (others st socket)\<rparr>)"
  unfolding handle_message_def Let_def others_def
  by (rule forEach_sends') (simp add: message_packet_bytes)

lemma others_not_sender: "socket \<notin> set (others st socket)"
  by (simp add: others_def)

lemma others_registered:
  assumes "registry_ok st" and "socket \<in> set (Object_values (idToSocket st))"
  shows "others st socket = removeAll socket (Object_values (idToSocket st))"
proof -
  from assms(2) obtain k where k: "(k, socket) \<in> set (idToSocket st)"
    by (auto simp: Object_values_def)
  have "sock_id (sockets st s) \<noteq> sock_id (sockets st socket) \<longleftrightarrow> s \<noteq> socket"
    if "s \<in> set (Object_values (idToSocket st))" for s
  proof -
    from that obtain j where j: "(j, s) \<in> set (idToSocket st)"
      by (auto simp: Object_values_def)
    from assms(1) j k have ids: "sock_id (sockets st s) = int j" "sock_id (sockets st socket) = int k"
      by (auto simp: registry_ok_def)
    from assms(1) have "distinct (map fst (idToSocket st))"
      by (simp add: registry_ok_def strict_sorted_iff)
    with j k have "j = k \<Longrightarrow> s = socket"
      by (meson eq_key_imp_eq_value)
    with ids show ?thesis by auto
  qed
  then show ?thesis
    unfolding others_def removeAll_filter_not_eq
    by (intro filter_cong) auto
qed

lemma others_delete_index:
  assumes "registry_ok st"
  shows "others st socket =
     Object_values (delete_index (sock_id (sockets st socket)) (idToSocket st))"
proof -
  let ?i = "sock_id (sockets st socket)"
  have ids: "sock_id (sockets st r) = int k" if "(k, r) \<in> set (idToSocket st)" for k r
    using assms that by (auto simp: registry_ok_def)
  have "filter (\<lambda>s. sock_id (sockets st s) \<noteq> ?i) (map snd (idToSocket st)) =
        map snd (filter (\<lambda>p. sock_id (sockets st (snd p)) \<noteq> ?i) (idToSocket st))"
    by (simp add: filter_map comp_def)
  also have "filter (\<lambda>p. sock_id (sockets st (snd p)) \<noteq> ?i) (idToSocket st) =
        delete_index ?i (idToSocket st)"
  proof (cases "?i < 0")
    case True
    have "filter (\<lambda>p. sock_id (sockets st (snd p)) \<noteq> ?i) (idToSocket st) = idToSocket st"
    proof -
      have "sock_id (sockets st (snd p)) \<noteq> ?i" if p: "p \<in> set (idToSocket st)" for p
      proof -
        obtain k r where kr: "p = (k, r)" by (cases p)
        with p ids [of k r] True show ?thesis by simp
      qed
      then show ?thesis by (simp add: filter_True)
    qed
    with True show ?thesis by (simp add: delete_index_def)
  next
    case False
    have "filter (\<lambda>p. sock_id (sockets st (snd p)) \<noteq> ?i) (idToSocket st) =
          filter (\<lambda>(k, v). k \<noteq> nat ?i) (idToSocket st)"
    proof -
      have "(sock_id (sockets st (snd p)) \<noteq> ?i) = (case p of (k, v) \<Rightarrow> k \<noteq> nat ?i)"
        if p: "p \<in> set (idToSocket st)" for p
      proof -
        obtain k r where kr: "p = (k, r)" by (cases p)
        with p ids [of k r] False show ?thesis by auto
      qed
      then show ?thesis by (intro filter_cong) auto
    qed
    with False show ?thesis by (simp add: delete_index_def)
  qed
  finally show ?thesis by (simp add: others_def Object_values_def)
qed

text \<open>
  C6, as the specification words it, does not hold. Line 210 leaves out the sockets whose
  session id equals the sender's id, and a session can share its id with a registered
  one: on the node whose counter has wrapped, the new connection 20 is given the id 0 of
  socket 10. A chat sub-packet that socket 10 sends afterwards is delivered to socket 11
  only; socket 20 is registered, is not the sender, and gets nothing.
\<close>

theorem chat_from_displaced_session:
  "serverCode 20 False ''u20'' None wrapped = Done wrapped_accept \<and>
   Object_values (idToSocket wrapped_accept) = [20, 11] \<and>
   dispatch demo_runtime 10 [CHR 0x05, CHR 0x00, CHR 0x19, CHR ''h'', CHR ''i''] None 0 5
       wrapped_accept =
     Some (Done (wrapped_accept\<lparr>sent := sent wrapped_accept @
       [(11, CHR 0x02 # ''hi'' @ replicate 4093 (CHR 0x00))]\<rparr>))"
proof -
  have a: "serverCode 20 False ''u20'' None wrapped = Done wrapped_accept"
    by (simp add: serverCode_def wrapped_def wrapped_accept_def assign_packet_bytes
        utf8_fit_short writeToSocket_def char_of_small Let_def)
  have b: "others wrapped_accept 10 = [11]"
    by (simp add: others_def wrapped_accept_def wrapped_def Object_values_def)
  have c: "dispatch demo_runtime 10 [CHR 0x05, CHR 0x00, CHR 0x19, CHR ''h'', CHR ''i''] None 0 5
       wrapped_accept =
     Some (Done (wrapped_accept\<lparr>sent := sent wrapped_accept @
       [(11, CHR 0x02 # ''hi'' @ replicate 4093 (CHR 0x00))]\<rparr>))"
    by (simp add: dispatch_def readUInt8_def handle_message_sent b readBufString_def
        demo_runtime_def buf_slice_def utf8_fit_short)
  show ?thesis
    using a c by (simp add: wrapped_accept_def Object_values_def)
qed

text \<open>
  C6, amended: a chat sub-packet (type 25) from socket \<open>S\<close> makes the \<open>switch\<close> send one chat
  packet to each registered socket whose session id differs from the id of \<open>S\<close>, in
  registry order, and do nothing else. \<open>S\<close> is not among the receivers. When every
  registered socket sits under its own id (the shape the registry has in every state
  the node reaches: section \<open>The registry keeps its shape\<close>), the receivers are the
  registered sockets but the one registered under the id of \<open>S\<close>; when \<open>S\<close> itself is
  registered, they are exactly the registered sockets other than \<open>S\<close>.
\<close>

theorem chat_broadcast:
  assumes "readUInt8 data (2 + off) = Some clientNet_message"
  shows "(\<exists>b. message_packet (readBufString rt data (3 + off) end) = Some b \<and>
            dispatch rt socket data serverSocket off end st =
              Some (Done (st\<lparr>sent := sent st @ map (\<lambda>s. (s, b)) (others st socket)\<rparr>))) \<and>
         socket \<notin> set (others st socket) \<and>
         (registry_ok st \<longrightarrow>
            others st socket =
              Object_values (delete_index (sock_id (sockets st socket)) (idToSocket st))) \<and>
         (registry_ok st \<and> socket \<in> set (Object_values (idToSocket st)) \<longrightarrow>
            others st socket = removeAll socket (Object_values (idToSocket st)))"
  using assms
  by (simp add: dispatch_def handle_message_sent message_packet_bytes others_not_sender
      others_registered others_delete_index)

theorem chat_broadcast_witness:
  "dispatch demo_runtime 11 [CHR 0x05, CHR 0x00, CHR 0x19, CHR ''h'', CHR ''i''] None 0 5 lobby =
     Some (Done (lobby\<lparr>sent :=
       [(10, CHR 0x02 # ''hi'' @ replicate 4093 (CHR 0x00)),
        (12, CHR 0x02 # ''hi'' @ replicate 4093 (CHR 0x00))]\<rparr>)) \<and>
   others lobby 11 = [10, 12] \<and> registry_ok lobby \<and>
   Object_values (idToSocket lobby) = [10, 11, 12]"
proof -
  have h: "readUInt8 [CHR 0x05, CHR 0x00, CHR 0x19, CHR ''h'', CHR ''i''] (2 + 0) = Some clientNet_message"
    by (simp add: readUInt8_def)
  show ?thesis
    using chat_broadcast [OF h, of demo_runtime 5 11 None lobby]
    by (simp add: others_def registry_ok_def lobby_def Object_values_def message_packet_bytes
        readBufString_def demo_runtime_def buf_slice_def utf8_fit_short)
qed

lemma remove1_filter_once:
  assumes "count_list xs a \<le> 1" and "P a"
  shows "remove1 a (filter P xs) = filter (\<lambda>c. P c \<and> c \<noteq> a) xs"
  using assms
proof (induction xs)
  case Nil
  then show ?case by simp
next
  case (Cons x xs)
  show ?case
  proof (cases "x = a")
    case True
    with Cons.prems have "count_list xs a = 0" by simp
    then have "a \<notin> set xs" by (simp add: count_list_0_iff)
    then have "filter P xs = filter (\<lambda>c. P c \<and> c \<noteq> a) xs"
      by (intro filter_cong) auto
    with True Cons.prems show ?thesis by simp
  next
    case False
    with Cons show ?thesis by simp
  qed
qed

lemma utf8_fit_take: "utf8_fit room s = take (length (utf8_fit room s)) s"
proof -
  have a: "rev (dropWhile P (rev xs)) = take (length (rev (dropWhile P (rev xs)))) xs" for P and xs :: string
  proof -
    have "xs = rev (dropWhile P (rev xs)) @ rev (takeWhile P (rev xs))"
      by (metis rev_append rev_rev_ident takeWhile_dropWhile_id)
    then show ?thesis
      by (metis append_eq_conv_conj)
  qed
  have b: "butlast ys = take (length (butlast ys)) xs" if "ys = take (length ys) xs" for ys xs :: string
    using that by (metis butlast_conv_take length_butlast take_take min.absorb1 diff_le_self)
  show ?thesis
  proof (cases "length s \<le> room")
    case True
    then show ?thesis by (simp add: utf8_fit_def)
  next
    case False
    show ?thesis
    proof (cases "is_continuation (s ! room)")
      case True
      let ?w = "rev (dropWhile is_continuation (rev (take room s)))"
      have "?w = take (length ?w) (take room s)" by (rule a)
      also have "\<dots> = take (length ?w) s"
        using length_dropWhile_le [of is_continuation "rev (take room s)"] False
        by (simp add: min_def)
      finally have "butlast ?w = take (length (butlast ?w)) s" by (rule b)
      moreover from True False have "utf8_fit room s = butlast ?w"
        by (simp only: utf8_fit_def if_False if_True)
      ultimately show ?thesis by (simp only:)
    next
      case c: False
      with False show ?thesis by (simp add: utf8_fit_def)
    qed
  qed
qed

lemma long_text:
  "readBufString demo_runtime
     (CHR 0x8B # CHR 0x13 # CHR 0x19 # replicate 5000 (CHR ''a'')) 3 5003 =
   replicate 5000 (CHR ''a'')"
proof -
  have "buf_slice (CHR 0x8B # CHR 0x13 # CHR 0x19 # replicate 5000 (CHR ''a'')) 3 5003 =
      replicate 5000 (CHR ''a'')"
    by (simp add: buf_slice_def)
  moreover have "remove1 (CHR 0x05) (replicate 5000 (CHR ''a'')) = replicate 5000 (CHR ''a'')"
    by (rule remove1_idem) simp
  ultimately show ?thesis
    by (simp add: readBufString_def demo_runtime_def)
qed

lemma long_text_cut: "utf8_fit 4095 (replicate 5000 (CHR ''a'')) = replicate 4095 (CHR ''a'')"
  by (simp add: utf8_fit_def is_continuation_def)

lemma char_of_bytes:
  "char_of (3::int) = CHR 0x03" "char_of (254::int) = CHR 0xFE" "char_of (255::int) = CHR 0xFF"
  "char_of (24::nat) = CHR 0x18" "char_of (21::nat) = CHR 0x15" "char_of (Suc 0) = CHR 0x01"
  by (simp_all add: char_of_eq_iff)

text \<open>
  C9, as the specification words it, does not hold of every chat packet. The packet is
  the 4096 bytes of \<open>bufLarge\<close>, so a text of more than 4095 bytes is not in it: of a chat
  sub-packet with a text of 5000 letters the receivers get the type byte and the first
  4095 letters. And the text in the packet is not always the sanitized one: of a chat
  sub-packet with the payload \<open>05 05 61\<close> the receivers get a packet that holds \<open>0x05\<close>.
\<close>

theorem chat_text_cut:
  "processPacket 1 demo_runtime 11
     (CHR 0x8B # CHR 0x13 # CHR 0x19 # replicate 5000 (CHR ''a'')) None lobby =
   Some (Done (lobby\<lparr>sent :=
     [(10, CHR 0x02 # replicate 4095 (CHR ''a'')),
      (12, CHR 0x02 # replicate 4095 (CHR ''a''))]\<rparr>)) \<and>
   processPacket 1 demo_runtime 11
     [CHR 0x06, CHR 0x00, CHR 0x19, CHR 0x05, CHR 0x05, CHR ''a''] None lobby =
   Some (Done (lobby\<lparr>sent :=
     [(10, CHR 0x02 # CHR 0x05 # CHR ''a'' # replicate 4093 (CHR 0x00)),
      (12, CHR 0x02 # CHR 0x05 # CHR ''a'' # replicate 4093 (CHR 0x00))]\<rparr>))"
proof -
  have o: "others lobby 11 = [10, 12]"
    by (simp add: others_def lobby_def Object_values_def)
  have len: "readInt16LE (CHR 0x8B # CHR 0x13 # CHR 0x19 # replicate 5000 (CHR ''a'')) 0 = Some 5003"
    by (simp add: readInt16LE_def)
  have ty: "readUInt8 (CHR 0x8B # CHR 0x13 # CHR 0x19 # replicate 5000 (CHR ''a'')) (2 + 0) = Some 25"
    by (simp add: readUInt8_def)
  have d: "dispatch demo_runtime 11 (CHR 0x8B # CHR 0x13 # CHR 0x19 # replicate 5000 (CHR ''a''))
      None 0 (0 + 5003) lobby =
    Some (Done (lobby\<lparr>sent :=
     [(10, CHR 0x02 # replicate 4095 (CHR ''a'')),
      (12, CHR 0x02 # replicate 4095 (CHR ''a''))]\<rparr>))"
    unfolding dispatch_def ty
    by (simp add: handle_message_sent long_text long_text_cut o sent_lobby)
  have a: "processPacket 1 demo_runtime 11
     (CHR 0x8B # CHR 0x13 # CHR 0x19 # replicate 5000 (CHR ''a'')) None lobby =
   Some (Done (lobby\<lparr>sent :=
     [(10, CHR 0x02 # replicate 4095 (CHR ''a'')),
      (12, CHR 0x02 # replicate 4095 (CHR ''a''))]\<rparr>))"
    unfolding processPacket_def One_nat_def processPacket_loop.simps len option.case d
    by simp
  have b: "processPacket 1 demo_runtime 11
     [CHR 0x06, CHR 0x00, CHR 0x19, CHR 0x05, CHR 0x05, CHR ''a''] None lobby =
   Some (Done (lobby\<lparr>sent :=
     [(10, CHR 0x02 # CHR 0x05 # CHR ''a'' # replicate 4093 (CHR 0x00)),
      (12, CHR 0x02 # CHR 0x05 # CHR ''a'' # replicate 4093 (CHR 0x00))]\<rparr>))"
    by (simp add: processPacket_def readInt16LE_def dispatch_def readUInt8_def
        handle_message_sent o sent_lobby readBufString_def demo_runtime_def buf_slice_def
        utf8_fit_short)
  from a b show ?thesis by simp
qed

text \<open>
  C9, amended: the packet a chat sub-packet produces is the byte 2 (\<open>serverNet.message\<close>),
  then, from offset 1, the text, then zeros up to 4096 bytes. The text is the decoded
  payload without its \<open>0x00\<close> characters and without its first \<open>0x05\<close>, cut to the longest
  run of whole characters that 4095 bytes hold: it never holds \<open>0x00\<close>, a payload with at
  most one \<open>0x05\<close> gives a text without \<open>0x05\<close>, and a text of at most 4095 bytes is in
  the packet whole. The packet is built from the text alone: no byte of it depends on
  the sender. The assign, leave and field-update packets, of a text and of a position,
  carry the session id at offsets 1 and 2, low byte first.
\<close>

theorem chat_packet_layout:
  "(readUInt8 data (2 + off) = Some clientNet_message \<longrightarrow>
      (let text = remove1 (CHR 0x05) (filter (\<lambda>c. c \<noteq> CHR 0x00)
                    (toString_utf8 rt (buf_slice data (3 + off) end)));
           cut = utf8_fit 4095 text
       in dispatch rt socket data serverSocket off end st =
            Some (Done (st\<lparr>sent := sent st @
              map (\<lambda>s. (s, CHR 0x02 # cut @ replicate (4095 - length cut) (CHR 0x00)))
                (others st socket)\<rparr>)) \<and>
          cut = take (length cut) text \<and> length cut \<le> 4095 \<and>
          (length text \<le> 4095 \<longrightarrow> cut = text) \<and>
          (4095 < length text \<longrightarrow>
             cut = (if is_continuation (text ! 4095)
                    then butlast (rev (dropWhile is_continuation (rev (take 4095 text))))
                    else take 4095 text)) \<and>
          CHR 0x00 \<notin> set text \<and>
          (count_list (toString_utf8 rt (buf_slice data (3 + off) end)) (CHR 0x05) \<le> 1 \<longrightarrow>
             text = filter (\<lambda>c. c \<noteq> CHR 0x00 \<and> c \<noteq> CHR 0x05)
                      (toString_utf8 rt (buf_slice data (3 + off) end))))) \<and>
   (0 \<le> i \<and> i \<le> 65535 \<longrightarrow>
      assign_packet i u =
        Some (CHR 0x01 # char_of (i mod 256) # char_of (i div 256) #
                utf8_fit 509 u @ replicate (509 - length (utf8_fit 509 u)) (CHR 0x00)) \<and>
      leave_packet i =
        Some (CHR 0x08 # char_of (i mod 256) # char_of (i div 256) # replicate 509 (CHR 0x00)) \<and>
      (t \<le> 255 \<longrightarrow>
         playerData_packet t (Text s) i =
           Some (char_of t # char_of (i mod 256) # char_of (i div 256) #
                   utf8_fit 509 s @ replicate (509 - length (utf8_fit 509 s)) (CHR 0x00))) \<and>
      (p \<le> 255 \<and> - 32768 \<le> x \<and> x \<le> 32767 \<and> - 32768 \<le> y \<and> y \<le> 32767 \<and> f \<le> 255 \<longrightarrow>
         playerData_packet p (Position x y f) i =
           Some (char_of p # char_of (i mod 256) # char_of (i div 256) #
                   char_of (x mod 256) # char_of ((x mod 65536) div 256) #
                   char_of (y mod 256) # char_of ((y mod 65536) div 256) #
                   char_of f # replicate 504 (CHR 0x00))))"
proof -
  let ?text = "remove1 (CHR 0x05) (filter (\<lambda>c. c \<noteq> CHR 0x00)
                    (toString_utf8 rt (buf_slice data (3 + off) end)))"
  have t: "readBufString rt data (3 + off) end = ?text"
    by (simp add: readBufString_def)
  have a: "utf8_fit 4095 ?text = take (length (utf8_fit 4095 ?text)) ?text"
    by (rule utf8_fit_take)
  have b: "length (utf8_fit 4095 ?text) \<le> 4095"
    by (rule length_utf8_fit)
  have c: "length ?text \<le> 4095 \<Longrightarrow> utf8_fit 4095 ?text = ?text"
    by (rule utf8_fit_short)
  have l: "4095 < length ?text \<Longrightarrow>
      utf8_fit 4095 ?text =
        (if is_continuation (?text ! 4095)
         then butlast (rev (dropWhile is_continuation (rev (take 4095 ?text))))
         else take 4095 ?text)"
    by (simp add: utf8_fit_def)
  have n: "CHR 0x00 \<notin> set ?text"
    using notin_set_remove1 [of "CHR 0x00" _ "CHR 0x05"] by simp
  have m: "count_list (toString_utf8 rt (buf_slice data (3 + off) end)) (CHR 0x05) \<le> 1 \<Longrightarrow>
      ?text = filter (\<lambda>c. c \<noteq> CHR 0x00 \<and> c \<noteq> CHR 0x05)
                (toString_utf8 rt (buf_slice data (3 + off) end))"
    by (rule remove1_filter_once) simp_all
  have chat: "readUInt8 data (2 + off) = Some clientNet_message \<Longrightarrow>
      dispatch rt socket data serverSocket off end st =
            Some (Done (st\<lparr>sent := sent st @
              map (\<lambda>s. (s, CHR 0x02 # utf8_fit 4095 ?text @
                  replicate (4095 - length (utf8_fit 4095 ?text)) (CHR 0x00)))
                (others st socket)\<rparr>))"
    by (simp add: dispatch_def handle_message_sent t)
  have ids: "0 \<le> i \<and> i \<le> 65535 \<longrightarrow>
      assign_packet i u =
        Some (CHR 0x01 # char_of (i mod 256) # char_of (i div 256) #
                utf8_fit 509 u @ replicate (509 - length (utf8_fit 509 u)) (CHR 0x00)) \<and>
      leave_packet i =
        Some (CHR 0x08 # char_of (i mod 256) # char_of (i div 256) # replicate 509 (CHR 0x00)) \<and>
      (t \<le> 255 \<longrightarrow>
         playerData_packet t (Text s) i =
           Some (char_of t # char_of (i mod 256) # char_of (i div 256) #
                   utf8_fit 509 s @ replicate (509 - length (utf8_fit 509 s)) (CHR 0x00))) \<and>
      (p \<le> 255 \<and> - 32768 \<le> x \<and> x \<le> 32767 \<and> - 32768 \<le> y \<and> y \<le> 32767 \<and> f \<le> 255 \<longrightarrow>
         playerData_packet p (Position x y f) i =
           Some (char_of p # char_of (i mod 256) # char_of (i div 256) #
                   char_of (x mod 256) # char_of ((x mod 65536) div 256) #
                   char_of (y mod 256) # char_of ((y mod 65536) div 256) #
                   char_of f # replicate 504 (CHR 0x00)))"
    by (simp add: assign_packet_bytes leave_packet_bytes playerData_text_bytes
        playerData_position_bytes del: char_of_mod_256)
  show ?thesis
    unfolding Let_def using a b c l n m chat ids by blast
qed

theorem chat_packet_layout_witness:
  "dispatch demo_runtime 11 [CHR 0x05, CHR 0x00, CHR 0x19, CHR ''h'', CHR ''i''] None 0 5 lobby =
     Some (Done (lobby\<lparr>sent :=
       [(10, CHR 0x02 # ''hi'' @ replicate 4093 (CHR 0x00)),
        (12, CHR 0x02 # ''hi'' @ replicate 4093 (CHR 0x00))]\<rparr>)) \<and>
   assign_packet 258 ''ab'' =
     Some (CHR 0x01 # CHR 0x02 # CHR 0x01 # ''ab'' @ replicate 507 (CHR 0x00)) \<and>
   leave_packet 258 = Some (CHR 0x08 # CHR 0x02 # CHR 0x01 # replicate 509 (CHR 0x00)) \<and>
   playerData_packet 24 (Text ''Al'') 258 =
     Some (CHR 0x18 # CHR 0x02 # CHR 0x01 # ''Al'' @ replicate 507 (CHR 0x00)) \<and>
   playerData_packet 21 (Position 3 (- 2) 1) 258 =
     Some (CHR 0x15 # CHR 0x02 # CHR 0x01 # CHR 0x03 # CHR 0x00 # CHR 0xFE # CHR 0xFF #
             CHR 0x01 # replicate 504 (CHR 0x00))"
proof -
  have h: "readUInt8 [CHR 0x05, CHR 0x00, CHR 0x19, CHR ''h'', CHR ''i''] 2 =
      Some clientNet_message"
    by (simp add: readUInt8_def)
  have tx: "remove1 (CHR 0x05) (filter (\<lambda>c. c \<noteq> CHR 0x00)
      (toString_utf8 demo_runtime
        (buf_slice [CHR 0x05, CHR 0x00, CHR 0x19, CHR ''h'', CHR ''i''] (3 + 0) 5))) = ''hi''"
    by (simp add: demo_runtime_def buf_slice_def)
  have o: "others lobby 11 = [10, 12]"
    by (simp add: others_def lobby_def Object_values_def)
  have ar: "(258::int) mod 256 = 2" "(258::int) div 256 = 1" "(3::int) mod 256 = 3"
    "(3::int) mod 65536 div 256 = 0" "(- 2::int) mod 256 = 254" "(- 2::int) mod 65536 div 256 = 255"
    by simp_all
  show ?thesis
    using chat_packet_layout [of "[CHR 0x05, CHR 0x00, CHR 0x19, CHR ''h'', CHR ''i'']" 0
      demo_runtime 5 11 None lobby 258 "''ab''" 24 "''Al''" 21 3 "- 2" 1]
    unfolding Let_def tx o
    by (simp add: h utf8_fit_short sent_lobby ar char_of_small char_of_bytes
        del: char_of_mod_256)
qed

section \<open>Disconnecting twice\<close>

lemma delete_index_idem: "delete_index i (delete_index i obj) = delete_index i obj"
  by (simp add: delete_index_def)

lemma AList_delete_idem: "AList.delete k (AList.delete k al) = AList.delete k al"
  by (simp add: AList.delete_eq)

lemma forEach_send_leave:
  assumes "leave_packet (sock_id (sockets st socket)) = Some L"
  shows "forEach (\<lambda>s st'. send_leave (sock_id (sockets st' socket)) (Some s) st') xs st =
     Done (st\<lparr>sent := sent st @ map (\<lambda>s. (s, L)) xs\<rparr>)"
proof -
  have "forEach (\<lambda>s st'. send_leave (sock_id (sockets st' socket)) (Some s) st') xs st =
     Done (st\<lparr>sent := sent st @ map (\<lambda>s. (s, L)) (filter (\<lambda>s. True) xs)\<rparr>)"
    by (rule forEach_sends') (simp add: send_leave_def assms)
  then show ?thesis by simp
qed

lemma playerDisconnect_Done:
  assumes "leave_packet (sock_id (sockets st socket)) = Some L"
  shows "playerDisconnect socket serverSocket st =
     Done (st\<lparr>idToSocket := delete_index (sock_id (sockets st socket)) (idToSocket st),
              sent := sent st @
                map (\<lambda>s. (s, L))
                  (Object_values (delete_index (sock_id (sockets st socket)) (idToSocket st))) @
                (case serverSocket of None \<Rightarrow> [] | Some p \<Rightarrow> [(p, L)]),
              socketToData := AList.delete (js_key (uid (sockets st socket))) (socketToData st)\<rparr>)"
proof -
  let ?st1 = "st\<lparr>idToSocket := delete_index (sock_id (sockets st socket)) (idToSocket st)\<rparr>"
  have L1: "leave_packet (sock_id (sockets ?st1 socket)) = Some L"
    using assms by simp
  show ?thesis
    unfolding playerDisconnect_def Let_def forEach_send_leave [OF L1]
    using assms
    by (cases serverSocket) (simp_all add: send_leave_def writeToSocket_def)
qed

text \<open>
  C3, as the specification states it: a second teardown of the same connection does not
  broadcast the leave packet again. In the example socket 11 (session 1) errors and then
  closes: \<open>createServer\<close> runs \<open>playerDisconnect\<close> for each event, and sockets 10 and 12
  get the leave packet twice.
\<close>

theorem teardown_twice_counterexample:
  "on_socket_event error_event 11 None lobby =
     Done (lobby\<lparr>idToSocket := [(0, 10), (2, 12)],
            sent := [(10, CHR 0x08 # CHR 0x01 # CHR 0x00 # replicate 509 (CHR 0x00)),
                     (12, CHR 0x08 # CHR 0x01 # CHR 0x00 # replicate 509 (CHR 0x00))]\<rparr>) \<and>
   on_socket_event close_event 11 None
     (lobby\<lparr>idToSocket := [(0, 10), (2, 12)],
            sent := [(10, CHR 0x08 # CHR 0x01 # CHR 0x00 # replicate 509 (CHR 0x00)),
                     (12, CHR 0x08 # CHR 0x01 # CHR 0x00 # replicate 509 (CHR 0x00))]\<rparr>) =
     Done (lobby\<lparr>idToSocket := [(0, 10), (2, 12)],
            sent := [(10, CHR 0x08 # CHR 0x01 # CHR 0x00 # replicate 509 (CHR 0x00)),
                     (12, CHR 0x08 # CHR 0x01 # CHR 0x00 # replicate 509 (CHR 0x00)),
                     (10, CHR 0x08 # CHR 0x01 # CHR 0x00 # replicate 509 (CHR 0x00)),
                     (12, CHR 0x08 # CHR 0x01 # CHR 0x00 # replicate 509 (CHR 0x00))]\<rparr>)"
  by (simp add: on_socket_event_def playerDisconnect_def lobby_def delete_index_def
      Object_values_def send_leave_def leave_packet_bytes writeToSocket_def js_key_def
      char_of_small)


text \<open>
  C3, amended: the error handler and the close handler run the same routine, and the
  routine has no guard. When the first teardown returns (it does whenever the leave
  packet can be built, that is for a session id in 0..65535), a second teardown of the
  same connection returns too, leaves the registry and the player store as the first
  left them, and sends the leave packet once more to every remaining session and to the
  parent.
\<close>

theorem teardown_twice:
  assumes "on_socket_event ev1 socket serverSocket st = Done st1"
    and "leave_packet (sock_id (sockets st socket)) = Some L"
  shows "sent st1 = sent st @ map (\<lambda>s. (s, L)) (Object_values (idToSocket st1)) @
                      (case serverSocket of None \<Rightarrow> [] | Some p \<Rightarrow> [(p, L)]) \<and>
         on_socket_event ev2 socket serverSocket st1 =
           Done (st1\<lparr>sent := sent st1 @ map (\<lambda>s. (s, L)) (Object_values (idToSocket st1)) @
                      (case serverSocket of None \<Rightarrow> [] | Some p \<Rightarrow> [(p, L)])\<rparr>)"
proof -
  note L = assms(2)
  have ev: "on_socket_event ev socket serverSocket s = playerDisconnect socket serverSocket s"
    for ev s
    by (cases ev) (simp_all add: on_socket_event_def)
  from assms(1) have st1: "st1 =
      st\<lparr>idToSocket := delete_index (sock_id (sockets st socket)) (idToSocket st),
         sent := sent st @
           map (\<lambda>s. (s, L))
             (Object_values (delete_index (sock_id (sockets st socket)) (idToSocket st))) @
           (case serverSocket of None \<Rightarrow> [] | Some p \<Rightarrow> [(p, L)]),
         socketToData := AList.delete (js_key (uid (sockets st socket))) (socketToData st)\<rparr>"
    unfolding ev playerDisconnect_Done [OF L] by simp
  have L1: "leave_packet (sock_id (sockets st1 socket)) = Some L"
    using L by (simp add: st1)
  show ?thesis
    unfolding ev playerDisconnect_Done [OF L1]
    by (simp add: st1 delete_index_idem AList_delete_idem)
qed

theorem teardown_twice_witness:
  "on_socket_event close_event 11 None
     (lobby\<lparr>idToSocket := [(0, 10), (2, 12)],
            sent := [(10, CHR 0x08 # CHR 0x01 # CHR 0x00 # replicate 509 (CHR 0x00)),
                     (12, CHR 0x08 # CHR 0x01 # CHR 0x00 # replicate 509 (CHR 0x00))]\<rparr>) =
   Done (lobby\<lparr>idToSocket := [(0, 10), (2, 12)],
            sent := [(10, CHR 0x08 # CHR 0x01 # CHR 0x00 # replicate 509 (CHR 0x00)),
                     (12, CHR 0x08 # CHR 0x01 # CHR 0x00 # replicate 509 (CHR 0x00)),
                     (10, CHR 0x08 # CHR 0x01 # CHR 0x00 # replicate 509 (CHR 0x00)),
                     (12, CHR 0x08 # CHR 0x01 # CHR 0x00 # replicate 509 (CHR 0x00))]\<rparr>)"
proof -
  have first: "on_socket_event error_event 11 None lobby =
      Done (lobby\<lparr>idToSocket := [(0, 10), (2, 12)],
            sent := [(10, CHR 0x08 # CHR 0x01 # CHR 0x00 # replicate 509 (CHR 0x00)),
                     (12, CHR 0x08 # CHR 0x01 # CHR 0x00 # replicate 509 (CHR 0x00))]\<rparr>)"
    by (simp add: on_socket_event_def playerDisconnect_def lobby_def delete_index_def
        Object_values_def send_leave_def leave_packet_bytes writeToSocket_def js_key_def
        char_of_small)
  have L: "leave_packet (sock_id (sockets lobby 11)) =
      Some (CHR 0x08 # CHR 0x01 # CHR 0x00 # replicate 509 (CHR 0x00))"
    by (simp add: lobby_def leave_packet_bytes char_of_small)
  show ?thesis
    using teardown_twice [OF first L, of close_event]
    by (simp add: Object_values_def)
qed

section \<open>Accepting a connection: the session id and the registry\<close>





section \<open>Field updates and the parent\<close>

text \<open>
  The field-update half of C5 holds: when \<open>forwardPlayerData\<close> gets as far as sending,
  the packet goes once to every other session and, exactly when \<open>unifiedCluster\<close> is set
  and there is a parent, once to the parent.
\<close>

lemma set_field_frame:
  "set_field socket k v st = Inr st1 \<Longrightarrow> st1 = st\<lparr>socketToData := socketToData st1\<rparr>"
  by (auto simp: set_field_def Let_def split: option.splits if_splits)

lemma read_field_frame:
  assumes "read_field rt data socket dataOffset end st = Inr (t, d, st1)"
  shows "st1 = st\<lparr>socketToData := socketToData st1\<rparr> \<and> readUInt8 data dataOffset = Some t"
  using assms
  by (auto simp: read_field_def Let_def dest: set_field_frame
      split: option.splits if_splits sum.splits)

lemma forwardPlayerData_sent:
  assumes "read_field rt data socket dataOffset end st = Inr (t, d, st1)"
    and "playerData_packet t d (sock_id (sockets st socket)) = Some P"
  shows "forwardPlayerData rt data socket dataOffset serverSocket end st =
     Done (st1\<lparr>sent := sent st @ map (\<lambda>s. (s, P)) (others st socket) @
                  (case serverSocket of
                     None \<Rightarrow> []
                   | Some p \<Rightarrow> if unifiedCluster st then [(p, P)] else [])\<rparr>)"
proof -
  from read_field_frame [OF assms(1)]
  have st1: "st1 = st\<lparr>socketToData := socketToData st1\<rparr>" by simp
  have same: "sockets st1 = sockets st" "idToSocket st1 = idToSocket st"
      "unifiedCluster st1 = unifiedCluster st" "sent st1 = sent st"
    by (subst st1, simp)+
  have loop: "forEach (\<lambda>s st'.
         if sock_id (sockets st' s) \<noteq> sock_id (sockets st' socket)
         then sendPlayerData t d (sock_id (sockets st' socket)) (Some s) st'
         else Done st')
       (Object_values (idToSocket st1)) st1 =
     Done (st1\<lparr>sent := sent st1 @ map (\<lambda>s. (s, P))
        (filter (\<lambda>s. sock_id (sockets st s) \<noteq> sock_id (sockets st socket))
           (Object_values (idToSocket st1)))\<rparr>)"
    by (rule forEach_sends') (simp add: sendPlayerData_def assms(2) same)
  show ?thesis
    unfolding forwardPlayerData_def assms(1) sum.case prod.case loop outcome.case
    by (cases serverSocket)
      (simp_all add: same others_def sendPlayerData_def assms(2) writeToSocket_def)
qed

section \<open>Malformed JSON\<close>

lemma length_encode_frames_Cons:
  "length (encode_frames (f # fs)) = 3 + length (snd f) + length (encode_frames fs)"
  by (simp add: encode_frames_def length_encode_frame)

lemma frame_bounds_append:
  "frame_bounds off (xs @ ys) =
     frame_bounds off xs @ frame_bounds (off + int (length (encode_frames xs))) ys"
  by (induction xs arbitrary: off) (simp_all add: encode_frames_def length_encode_frame add.assoc)

lemma dispatch_frames_append:
  "dispatch_frames rt socket data serverSocket (bs @ cs) st =
     (case dispatch_frames rt socket data serverSocket bs st of
        Some (Done st1) \<Rightarrow> dispatch_frames rt socket data serverSocket cs st1
      | r \<Rightarrow> r)"
proof (induction bs arbitrary: st)
  case Nil
  then show ?case by simp
next
  case (Cons b bs)
  obtain off e where b: "b = (off, e)" by (cases b)
  show ?case
    by (simp add: b Cons.IH split: option.split outcome.split)
qed

lemma buf_slice_all: "buf_slice p 0 (int (length p)) = p"
  by (simp add: buf_slice_def)

lemma dispatch_bad_json:
  assumes "fst bad \<in> {CHR 0x14, CHR 0x1B, CHR 0x1C}"
    and "JSON_parse rt (readBufString rt (snd bad) 0 (int (length (snd bad)))) = None"
  shows "dispatch rt socket (pre @ encode_frame bad @ post) serverSocket (int (length pre))
           (int (length pre) + 3 + int (length (snd bad))) st =
         Some (Threw SyntaxError st)"
proof -
  have t: "readUInt8 (pre @ encode_frame bad @ post) (2 + int (length pre)) =
      Some (of_char (fst bad))"
    by (rule readUInt8_frame)
  have s: "readBufString rt (pre @ encode_frame bad @ post) (3 + int (length pre))
      (int (length pre) + 3 + int (length (snd bad))) =
      readBufString rt (snd bad) 0 (int (length (snd bad)))"
    using buf_slice_frame [of pre bad post]
    by (simp add: readBufString_def buf_slice_all add.commute)
  from assms(1) consider "fst bad = CHR 0x14" | "fst bad = CHR 0x1B" | "fst bad = CHR 0x1C"
    by auto
  then show ?thesis
    by cases
      (simp_all add: dispatch_def t s assms(2) handle_ID_def handle_upload_def
        handle_miscData_def)
qed

text \<open>
  C4, as the specification states it: a sub-packet whose payload is not JSON is dropped
  and the rest of the read is processed. In the example the read holds a miscData
  sub-packet with the payload \<open>{\<close> and a heartbeat: \<open>processPacket\<close> throws the
  SyntaxError and the heartbeat is never answered, although the heartbeat alone is.
\<close>

theorem malformed_json_counterexample:
  "processPacket 2 demo_runtime 11 (encode_frames [(CHR 0x1C, ''{''), (CHR 0x1D, [])]) None lobby =
     Some (Threw SyntaxError lobby) \<and>
   processPacket 2 demo_runtime 11 (encode_frames [(CHR 0x1D, [])]) None lobby =
     Some (Done (lobby\<lparr>sent := [(11, CHR 0x0A # replicate 511 (CHR 0x00))]\<rparr>))"
proof -
  have d: "encode_frames [(CHR 0x1C, ''{''), (CHR 0x1D, [])] =
      [CHR 0x04, CHR 0x00, CHR 0x1C, CHR ''{'', CHR 0x03, CHR 0x00, CHR 0x1D]"
    "encode_frames [(CHR 0x1D, [])] = [CHR 0x03, CHR 0x00, CHR 0x1D]"
    by (simp_all add: encode_frames_def encode_frame_def char_of_eq_iff)
  have two: "(2::nat) = Suc (Suc 0)" by simp
  show ?thesis
    unfolding d two
    by (simp add: processPacket_def readInt16LE_def dispatch_def readUInt8_def
        handle_miscData_def handle_heartbeat_def heartbeat_packet_bytes writeToSocket_def
        readBufString_def buf_slice_def demo_runtime_def demo_parse_def Let_def sent_lobby)
qed

text \<open>
  C4, amended: \<open>processPacket\<close> has no handler for exceptions. In a read of well-formed
  frames, a sub-packet of type ID, upload or miscData whose sanitized payload
  \<open>JSON.parse\<close> rejects ends the read: the sub-packets before it are dispatched as
  usual, the SyntaxError leaves \<open>processPacket\<close> with the state they produced, and no
  later sub-packet of the read is dispatched.
\<close>

theorem malformed_json_aborts_read:
  assumes "\<forall>f \<in> set (fs1 @ bad # fs2). length (snd f) \<le> 32764"
    and "length (fs1 @ bad # fs2) \<le> n"
    and "fst bad \<in> {CHR 0x14, CHR 0x1B, CHR 0x1C}"
    and "JSON_parse rt (readBufString rt (snd bad) 0 (int (length (snd bad)))) = None"
  shows "processPacket n rt socket (encode_frames (fs1 @ bad # fs2)) serverSocket st =
     (case dispatch_frames rt socket (encode_frames (fs1 @ bad # fs2)) serverSocket
             (frame_bounds 0 fs1) st of
        Some (Done st1) \<Rightarrow> Some (Threw SyntaxError st1)
      | r \<Rightarrow> r)"
proof -
  let ?data = "encode_frames (fs1 @ bad # fs2)"
  have data: "?data = encode_frames fs1 @ encode_frame bad @ encode_frames fs2"
    by (simp add: encode_frames_def)
  have run: "processPacket n rt socket ?data serverSocket st =
      dispatch_frames rt socket ?data serverSocket (frame_bounds 0 (fs1 @ bad # fs2)) st"
    using loop_frames [OF assms(1,2), of rt socket "[]" serverSocket st]
    by (simp add: processPacket_def)
  have bad: "dispatch rt socket ?data serverSocket (int (length (encode_frames fs1)))
           (int (length (encode_frames fs1)) + 3 + int (length (snd bad))) st1 =
         Some (Threw SyntaxError st1)" for st1
    unfolding data by (rule dispatch_bad_json [OF assms(3,4)])
  show ?thesis
    unfolding run frame_bounds_append dispatch_frames_append
    by (simp add: bad split: option.split outcome.split)
qed

theorem malformed_json_aborts_read_witness:
  "processPacket 3 demo_runtime 11
     (encode_frames [(CHR 0x1D, []), (CHR 0x1C, ''{''), (CHR 0x1D, [])]) None lobby =
   Some (Threw SyntaxError (lobby\<lparr>sent := [(11, CHR 0x0A # replicate 511 (CHR 0x00))]\<rparr>))"
proof -
  have h1: "\<forall>f \<in> set ([(CHR 0x1D, [])] @ (CHR 0x1C, ''{'') # [(CHR 0x1D, [])]).
      length (snd f) \<le> 32764"
    by simp
  have h2: "length ([(CHR 0x1D, [])] @ (CHR 0x1C, ''{'') # [(CHR 0x1D, [])]) \<le> 3"
    by simp
  have h3: "fst (CHR 0x1C, ''{'') \<in> {CHR 0x14, CHR 0x1B, CHR 0x1C}"
    by simp
  have h4: "JSON_parse demo_runtime (readBufString demo_runtime (snd (CHR 0x1C, ''{'')) 0
      (int (length (snd (CHR 0x1C, ''{''))))) = None"
    by (simp add: demo_runtime_def demo_parse_def readBufString_def buf_slice_def)
  have d: "encode_frames [(CHR 0x1D, []), (CHR 0x1C, ''{''), (CHR 0x1D, [])] =
      [CHR 0x03, CHR 0x00, CHR 0x1D, CHR 0x04, CHR 0x00, CHR 0x1C, CHR ''{'',
       CHR 0x03, CHR 0x00, CHR 0x1D]"
    by (simp add: encode_frames_def encode_frame_def char_of_eq_iff)
  show ?thesis
    using malformed_json_aborts_read [OF h1 h2 h3 h4, of 11 None lobby]
    by (simp add: d dispatch_def readUInt8_def handle_heartbeat_def heartbeat_packet_bytes
        writeToSocket_def sent_lobby)
qed

section \<open>The identity packet\<close>





lemma others_uid_update:
  "others (st\<lparr>sockets := (sockets st)(socket := (sockets st socket)\<lparr>uid := v\<rparr>),
              socketToData := x, sent := y\<rparr>) socket = others st socket"
  by (auto simp add: others_def intro!: filter_cong)








section \<open>The registry keeps its shape\<close>

text \<open>
  \<open>registry_ok\<close> holds of the empty registry and is kept by every operation of the node:
  by \<open>serverCode\<close> for a new socket object, by \<open>playerDisconnect\<close>, and by
  \<open>processPacket\<close>, which changes neither the registry nor a session id. This holds for
  the state an operation leaves behind when it throws as well.
\<close>

lemma state_of_simps: "state_of (Done st) = st" "state_of (Threw e st) = st"
  by (simp_all add: state_of_def)

lemma same_sessions_refl: "same_sessions st st"
  by (simp add: same_sessions_def)

lemma same_sessions_trans:
  "same_sessions st st' \<Longrightarrow> same_sessions st' st'' \<Longrightarrow> same_sessions st st''"
  by (simp add: same_sessions_def)

lemma registry_ok_empty: "idToSocket st = [] \<Longrightarrow> registry_ok st"
  by (simp add: registry_ok_def)

lemma same_sessions_registry_ok:
  "same_sessions st st' \<Longrightarrow> registry_ok st \<Longrightarrow> registry_ok st'"
  by (simp add: same_sessions_def registry_ok_def)

lemma same_sessions_write: "same_sessions st (writeToSocket target b st)"
  by (cases target) (simp_all add: writeToSocket_def same_sessions_def)

lemma forEach_same_sessions:
  assumes "\<And>s st. same_sessions st (state_of (f s st))"
  shows "same_sessions st (state_of (forEach f xs st))"
proof (induction xs arbitrary: st)
  case Nil
  then show ?case by (simp add: state_of_def same_sessions_refl)
next
  case (Cons x xs)
  show ?case
  proof (cases "f x st")
    case (Done st')
    with assms [of st x] have "same_sessions st st'" by (simp add: state_of_def)
    with Cons.IH [of st'] Done show ?thesis
      by (auto intro: same_sessions_trans)
  next
    case (Threw e st')
    with assms [of st x] show ?thesis by (simp add: state_of_def)
  qed
qed

lemma sendPlayerData_same: "same_sessions st (state_of (sendPlayerData t d i target st))"
  by (simp add: sendPlayerData_def state_of_def same_sessions_write same_sessions_refl
      split: option.split)

lemma set_field_same: "set_field socket k v st = Inr st' \<Longrightarrow> same_sessions st st'"
  by (auto simp: set_field_def Let_def same_sessions_def split: option.splits if_splits)

lemma read_field_same:
  "read_field rt data socket dataOffset end st = Inr (t, d, st') \<Longrightarrow> same_sessions st st'"
  by (auto simp: read_field_def Let_def same_sessions_refl dest: set_field_same
      split: option.splits if_splits sum.splits)

lemma forwardPlayerData_same:
  "same_sessions st (state_of (forwardPlayerData rt data socket dataOffset serverSocket end st))"
proof (cases "read_field rt data socket dataOffset end st")
  case (Inl e)
  then show ?thesis
    by (simp add: forwardPlayerData_def state_of_def same_sessions_refl)
next
  case (Inr x)
  obtain t d st1 where x: "x = (t, d, st1)" by (cases x)
  from Inr have a: "same_sessions st st1"
    unfolding x by (rule read_field_same)
  let ?f = "\<lambda>s st'. if sock_id (sockets st' s) \<noteq> sock_id (sockets st' socket)
      then sendPlayerData t d (sock_id (sockets st' socket)) (Some s) st' else Done st'"
  have b: "same_sessions st1 (state_of (forEach ?f (Object_values (idToSocket st1)) st1))"
    by (rule forEach_same_sessions)
      (simp add: sendPlayerData_same state_of_simps same_sessions_refl)
  show ?thesis
  proof (cases "forEach ?f (Object_values (idToSocket st1)) st1")
    case (Done st2)
    with b have "same_sessions st1 st2" by (simp add: state_of_def)
    with a have c: "same_sessions st st2" by (rule same_sessions_trans)
    from sendPlayerData_same [of st2 t d "sock_id (sockets st2 socket)" serverSocket]
    have "same_sessions st (state_of (sendPlayerData t d (sock_id (sockets st2 socket))
        serverSocket st2))"
      by (rule same_sessions_trans [OF c])
    with c show ?thesis
      by (simp add: forwardPlayerData_def Inr x Done state_of_def)
  next
    case (Threw e st2)
    with b have "same_sessions st1 st2" by (simp add: state_of_def)
    with a have "same_sessions st st2" by (rule same_sessions_trans)
    then show ?thesis
      by (simp add: forwardPlayerData_def Inr x Threw state_of_def)
  qed
qed

lemma handle_message_same:
  "same_sessions st (state_of (handle_message rt socket data off end st))"
  unfolding handle_message_def Let_def
  by (rule forEach_same_sessions)
    (simp add: state_of_def same_sessions_write same_sessions_refl split: option.split)

lemma handle_ID_same:
  assumes "handle_ID rt socket data off end st = Some r"
  shows "same_sessions st (state_of r)"
proof (cases "JSON_parse rt (readBufString rt data (3 + off) end)")
  case None
  with assms show ?thesis
    by (auto simp: handle_ID_def state_of_def same_sessions_refl)
next
  case (Some d)
  show ?thesis
  proof (cases "d = JNull")
    case True
    with assms Some show ?thesis
      by (auto simp: handle_ID_def state_of_def same_sessions_refl)
  next
    case False
    show ?thesis
    proof (cases "dedupe_uid d (socketToData st)")
      case None
      with assms Some False show ?thesis
        by (simp add: handle_ID_def)
    next
      case dd0: (Some x)
      show ?thesis
      proof (cases x)
        case (Inl e)
        with assms Some False dd0 show ?thesis
          by (auto simp: handle_ID_def state_of_def same_sessions_refl)
      next
        case (Inr y)
    obtain v d' where y: "y = (v, d')" by (cases y)
    from dd0 Inr y have dd: "dedupe_uid d (socketToData st) = Some (Inr (v, d'))"
      by simp
    let ?st2 = "st\<lparr>sockets := (sockets st)(socket := (sockets st socket)\<lparr>uid := v\<rparr>),
        socketToData := AList.update (js_key v) d' (socketToData st)\<rparr>"
    have a: "same_sessions st ?st2"
      by (simp add: same_sessions_def)
    show ?thesis
    proof (cases "playerObj_packet (sock_id (sockets ?st2 socket)) (readBufString rt data (3 + off) end)")
      case None
      with assms Some False dd a show ?thesis
        by (auto simp: handle_ID_def Let_def state_of_def)
    next
      case (Some b)
      have l1: "same_sessions ?st2 (state_of (forEach (send_to_others socket b)
          (Object_values (idToSocket ?st2)) ?st2))"
        by (rule forEach_same_sessions)
          (simp add: send_to_others_def state_of_def same_sessions_write same_sessions_refl)
      show ?thesis
      proof (cases "forEach (send_to_others socket b) (Object_values (idToSocket ?st2)) ?st2")
        case (Threw e st3)
        with l1 have "same_sessions ?st2 st3" by (simp add: state_of_def)
        with a have "same_sessions st st3" by (rule same_sessions_trans)
        moreover from assms \<open>JSON_parse rt _ = Some d\<close> False dd Some Threw
        have "r = Threw e st3"
          by (simp add: handle_ID_def Let_def)
        ultimately show ?thesis by (simp add: state_of_def)
      next
        case (Done st3)
        with l1 have "same_sessions ?st2 st3" by (simp add: state_of_def)
        with a have c: "same_sessions st st3" by (rule same_sessions_trans)
        have "same_sessions st3 (state_of (forEach (send_peer_to rt socket)
            (Object_values (idToSocket st3)) st3))"
          by (rule forEach_same_sessions)
            (simp add: send_peer_to_def state_of_def same_sessions_write same_sessions_refl
              split: option.split)
        with c have "same_sessions st (state_of (forEach (send_peer_to rt socket)
            (Object_values (idToSocket st3)) st3))"
          by (rule same_sessions_trans)
        moreover from assms \<open>JSON_parse rt _ = Some d\<close> False dd Some Done
        have "r = forEach (send_peer_to rt socket) (Object_values (idToSocket st3)) st3"
          by (simp add: handle_ID_def Let_def)
        ultimately show ?thesis by simp
      qed
    qed
  qed
qed
      qed
    qed

lemma dispatch_same:
  assumes "dispatch rt socket data serverSocket off end st = Some r"
  shows "same_sessions st (state_of r)"
proof (cases "readUInt8 data (2 + off)")
  case None
  with assms show ?thesis
    by (auto simp: dispatch_def state_of_def same_sessions_refl)
next
  case (Some t)
  with assms show ?thesis
    using handle_ID_same [of rt socket data off "end" st r]
      handle_message_same [of st rt socket data off "end"]
      forwardPlayerData_same [of st rt data socket "2 + off" serverSocket "end"]
    by (auto simp: dispatch_def handle_email_def handle_upload_def handle_miscData_def
        handle_leave_def handle_heartbeat_def state_of_def same_sessions_refl
        same_sessions_write split: if_splits option.splits)
qed

lemma processPacket_loop_same:
  assumes "processPacket_loop n rt socket data serverSocket off st = Some r"
  shows "same_sessions st (state_of r)"
  using assms
proof (induction n arbitrary: off st)
  case 0
  then show ?case
    by (auto simp: state_of_def same_sessions_refl split: if_splits)
next
  case (Suc n)
  show ?case
  proof (cases "off < int (length data)")
    case False
    with Suc.prems show ?thesis by (auto simp: state_of_def same_sessions_refl)
  next
    case True
    show ?thesis
    proof (cases "readInt16LE data off")
      case None
      with True Suc.prems show ?thesis by (auto simp: state_of_def same_sessions_refl)
    next
      case (Some len)
      with True Suc.prems obtain q where
        q: "dispatch rt socket data serverSocket off (off + len) st = Some q"
        by (auto split: option.splits)
      from dispatch_same [OF q] have a: "same_sessions st (state_of q)" .
      show ?thesis
      proof (cases q)
        case (Threw e st')
        with True Some q Suc.prems a show ?thesis by auto
      next
        case (Done st')
        with True Some q Suc.prems
        have "processPacket_loop n rt socket data serverSocket (off + len) st' = Some r"
          by simp
        from Suc.IH [OF this] a Done show ?thesis
          by (auto simp: state_of_def intro: same_sessions_trans)
      qed
    qed
  qed
qed

lemma registry_ok_processPacket:
  assumes "processPacket n rt socket data serverSocket st = Some r" and "registry_ok st"
  shows "registry_ok (state_of r)"
  using processPacket_loop_same [of n rt socket data serverSocket 0 st r] assms
  by (auto simp: processPacket_def intro: same_sessions_registry_ok)


lemma registry_ok_playerDisconnect:
  assumes "registry_ok st"
  shows "registry_ok (state_of (playerDisconnect socket serverSocket st))"
proof -
  let ?st1 = "st\<lparr>idToSocket := delete_index (sock_id (sockets st socket)) (idToSocket st)\<rparr>"
  have ok1: "registry_ok ?st1"
    using assms by (auto simp: registry_ok_def delete_index_def sorted_wrt_filter
        sorted_wrt_map filter_map comp_def)
  have l: "same_sessions ?st1 (state_of (forEach
      (\<lambda>s st'. send_leave (sock_id (sockets st' socket)) (Some s) st')
      (Object_values (idToSocket ?st1)) ?st1))"
    by (rule forEach_same_sessions)
      (simp add: send_leave_def state_of_def same_sessions_write same_sessions_refl
        split: option.split)
  show ?thesis
  proof (cases "forEach (\<lambda>s st'. send_leave (sock_id (sockets st' socket)) (Some s) st')
      (Object_values (idToSocket ?st1)) ?st1")
    case (Threw e st2)
    with l ok1 show ?thesis
      by (auto simp: playerDisconnect_def Let_def state_of_def intro: same_sessions_registry_ok)
  next
    case (Done st2)
    with l ok1 have ok2: "registry_ok st2"
      by (auto simp: state_of_def intro: same_sessions_registry_ok)
    then have "registry_ok (writeToSocket serverSocket b st2)" for b
      using same_sessions_write by (rule same_sessions_registry_ok [rotated])
    with ok2 Done show ?thesis
      by (auto simp: playerDisconnect_def Let_def state_of_def send_leave_def registry_ok_def
          split: option.split)
  qed
qed

section \<open>Accepting a connection while its session id is held\<close>

text \<open>
  \<open>serverCode\<close> returns when the session id fits 16 bits and, on a node with a parent,
  the registry holds at most 255 sockets once the new one is in it: line 163 writes that
  count with \<open>writeUInt8\<close>.
\<close>

lemma length_put_index:
  assumes "sorted_wrt (<) (map fst obj)"
  shows "length (put_index k v obj) = (if k \<in> fst ` set obj then length obj else Suc (length obj))"
  using assms
proof (induction obj)
  case Nil
  then show ?case by simp
next
  case (Cons p obj)
  obtain k' v' where p: "p = (k', v')" by (cases p)
  from Cons.prems have tail: "sorted_wrt (<) (map fst obj)" and above: "\<forall>q \<in> set obj. k' < fst q"
    by (auto simp: p)
  note IH = Cons.IH [OF tail]
  show ?case
  proof (cases "k < k'")
    case True
    with above have "k \<notin> fst ` set obj" by force
    with True show ?thesis by (simp add: p)
  next
    case False
    show ?thesis
    proof (cases "k = k'")
      case True
      with above have "k \<notin> fst ` set obj" by force
      with True show ?thesis by (simp add: p)
    next
      case ne: False
      with False IH show ?thesis by (simp add: p)
    qed
  qed
qed


text \<open>
  On a node with a parent the registry never holds more than 255 sockets: an accept
  that returns leaves at most 255, and neither \<open>playerDisconnect\<close> nor \<open>processPacket\<close>
  adds one. The accept that would be the 256th registered socket throws the RangeError
  of line 163; the id of that accept is not held, so it displaces no socket.
\<close>

lemma serverCode_parent_bound:
  assumes "serverCode socket w u (Some p) st = Done st'"
  shows "length (idToSocket st') \<le> 255"
  using assms
  by (auto simp add: serverCode_def Let_def writeToSocket_def count_packet_bytes
      split: option.splits if_splits)

lemma serverCode_256th_with_parent:
  assumes "sorted_wrt (<) (map fst (idToSocket st))"
    and "playerCount st + serverIndex st * 256 \<notin> fst ` set (idToSocket st)"
    and "length (idToSocket st) = 255"
  shows "\<exists>e st'. serverCode socket w u (Some p) st = Threw e st'"
proof -
  have "length (put_index (nat (int (playerCount st) + int (serverIndex st) * 256)) socket
      (idToSocket st)) = 256"
    using length_put_index [OF assms(1), of "playerCount st + serverIndex st * 256" socket] assms(2,3)
    by (simp add: nat_add_distrib nat_mult_distrib)
  then show ?thesis
    by (simp add: serverCode_def Let_def writeToSocket_def count_packet_bytes
        split: option.split)
qed

lemma playerDisconnect_registry:
  "idToSocket (state_of (playerDisconnect socket serverSocket st)) =
     delete_index (sock_id (sockets st socket)) (idToSocket st)"
proof -
  let ?st1 = "st\<lparr>idToSocket := delete_index (sock_id (sockets st socket)) (idToSocket st)\<rparr>"
  have l: "same_sessions ?st1 (state_of (forEach
      (\<lambda>s st'. send_leave (sock_id (sockets st' socket)) (Some s) st')
      (Object_values (idToSocket ?st1)) ?st1))"
    by (rule forEach_same_sessions)
      (simp add: send_leave_def state_of_def same_sessions_write same_sessions_refl
        split: option.split)
  show ?thesis
  proof (cases "forEach (\<lambda>s st'. send_leave (sock_id (sockets st' socket)) (Some s) st')
      (Object_values (idToSocket ?st1)) ?st1")
    case (Threw e st2)
    with l show ?thesis
      by (auto simp: playerDisconnect_def Let_def state_of_def same_sessions_def)
  next
    case (Done st2)
    with l have "idToSocket st2 = idToSocket ?st1"
      by (simp add: state_of_def same_sessions_def)
    with Done show ?thesis
      by (auto simp: playerDisconnect_def Let_def state_of_def send_leave_def writeToSocket_def
          split: option.split)
  qed
qed

lemma playerDisconnect_length:
  "length (idToSocket (state_of (playerDisconnect socket serverSocket st))) \<le> length (idToSocket st)"
  by (simp add: playerDisconnect_registry delete_index_def)

lemma processPacket_registry:
  assumes "processPacket n rt socket data serverSocket st = Some r"
  shows "idToSocket (state_of r) = idToSocket st"
  using processPacket_loop_same [of n rt socket data serverSocket 0 st r] assms
  by (simp add: processPacket_def same_sessions_def)




end
